theory Spec2Isabelle
  imports Main "HOL-Library.Word"
begin

section \<open>The subscription engine of the client (tscSub.c)\<close>

text \<open>
  A shallow embedding of \<^verbatim>\<open>src/client/src/tscSub.c\<close>. The C integers
  \<^verbatim>\<open>int64_t\<close> and \<^verbatim>\<open>TSKEY\<close> are 64-bit words, read as two's complement by
  \<open>sint\<close> and compared with the signed orders \<open><s\<close> and \<open>\<le>s\<close>. A dynamic array
  (\<^verbatim>\<open>SArray\<close>) is a list of its elements, a pointer that may be \<^verbatim>\<open>NULL\<close> is an
  \<open>option\<close>, and everything the functions read from or write to their surroundings
  (the clock, the files, the host's queries) is a field of the record \<open>world\<close> that
  is passed in and handed back.
\<close>

subsection \<open>Data\<close>

type_synonym int64 = "64 word"
type_synonym TSKEY = "64 word"

definition INT64_MIN :: int64 where
  "INT64_MIN = 0x8000000000000000"

record SSubscriptionProgress =
  uid :: int64
  key :: TSKEY

text \<open>
  What the functions read of the table meta information of the statement: the two
  tests \<^verbatim>\<open>UTIL_TABLE_IS_NORMAL_TABLE\<close> and \<^verbatim>\<open>UTIL_TABLE_IS_SUPER_TABLE\<close> (macros
  of a header outside the file, kept as two independent fields) and the uid of the table.
\<close>

record STableMetaInfo =
  isNormalTable :: bool
  isSuperTable :: bool
  tableUid :: int64

text \<open>
  The part of \<^verbatim>\<open>SSqlObj\<close> the file uses: the lower-cased statement, the code of the
  last response, the table meta information, the \<^verbatim>\<open>TSDB_QUERY_TYPE_MULTITABLE_QUERY\<close>
  bit of the query type. What \<^verbatim>\<open>tscBuildVgroupTableInfo\<close>, \<^verbatim>\<open>tscFreeSqlResult\<close> and
  \<^verbatim>\<open>tscRemoveFromSqlList\<close> do to the host's query object is outside this state.
\<close>

record SSqlObj =
  sqlstr :: string
  resCode :: int
  tableMetaInfo :: STableMetaInfo
  multitableQuery :: bool

record SSub =
  topic :: string
  lastSyncTime :: int64
  lastConsumeTime :: int64
  pTimer :: bool
  pSql :: SSqlObj
  interval :: int
  progress :: "SSubscriptionProgress list"

subsection \<open>The progress array\<close>

definition tscCompareSubscriptionProgress ::
    "SSubscriptionProgress \<Rightarrow> SSubscriptionProgress \<Rightarrow> int" where
  "tscCompareSubscriptionProgress x y =
     (if uid y <s uid x then 1
      else if uid x <s uid y then - 1
      else 0)"

text \<open>
  Modelled from the spec: \<^verbatim>\<open>taosArraySearch\<close> lives in the array module, outside the
  file; the spec (4.A) says the lookup is a binary search by uid. It is the search of
  the C library's \<^verbatim>\<open>bsearch\<close> over the elements \<open>l..<u\<close>: probe the middle, go
  left on a negative comparison, right on a positive one, stop on zero. The result is
  the index of the element found (the C function returns its address).
\<close>

function bsearch ::
    "('a \<Rightarrow> 'a \<Rightarrow> int) \<Rightarrow> 'a \<Rightarrow> 'a list \<Rightarrow> nat \<Rightarrow> nat \<Rightarrow> nat option" where
  "bsearch cmp k xs l u =
     (if l < u then
        (let idx = (l + u) div 2;
             c = cmp k (xs ! idx)
         in if c < 0 then bsearch cmp k xs l idx
            else if 0 < c then bsearch cmp k xs (idx + 1) u
            else Some idx)
      else None)"
  by pat_completeness auto
termination
  by (relation "measure (\<lambda>(cmp, k, xs, l, u). u - l)") auto

declare bsearch.simps [simp del]

definition taosArraySearch ::
    "'a list \<Rightarrow> 'a \<Rightarrow> ('a \<Rightarrow> 'a \<Rightarrow> int) \<Rightarrow> nat option" where
  "taosArraySearch pArray k cmp = bsearch cmp k pArray 0 (length pArray)"

text \<open>
  Modelled from the spec: \<^verbatim>\<open>taosArrayPush\<close> and \<^verbatim>\<open>taosArrayClear\<close> of the array
  module, outside the file: appending an element at the end, and emptying the array.
\<close>

definition taosArrayPush :: "'a list \<Rightarrow> 'a \<Rightarrow> 'a list" where
  "taosArrayPush pArray x = pArray @ [x]"

definition taosArrayClear :: "'a list \<Rightarrow> 'a list" where
  "taosArrayClear pArray = []"

text \<open>
  \<^verbatim>\<open>tscGetSubscriptionProgress\<close> and \<^verbatim>\<open>tscUpdateSubscriptionProgress\<close> take the
  handle as \<^verbatim>\<open>void*\<close>: \<open>None\<close> is \<^verbatim>\<open>NULL\<close>, \<open>Some pSub\<close> a handle to the
  subscription \<open>pSub\<close>. The update returns the subscription behind the handle as the
  call leaves it.
\<close>

definition tscGetSubscriptionProgress :: "SSub option \<Rightarrow> int64 \<Rightarrow> TSKEY \<Rightarrow> TSKEY" where
  "tscGetSubscriptionProgress sub u dflt =
     (case sub of
        None \<Rightarrow> dflt
      | Some pSub \<Rightarrow>
          (let target = \<lparr>uid = u, key = 0\<rparr> in
           case taosArraySearch (progress pSub) target tscCompareSubscriptionProgress of
             None \<Rightarrow> dflt
           | Some i \<Rightarrow> key (progress pSub ! i)))"

definition tscUpdateSubscriptionProgress :: "SSub option \<Rightarrow> int64 \<Rightarrow> TSKEY \<Rightarrow> SSub option" where
  "tscUpdateSubscriptionProgress sub u ts =
     (case sub of
        None \<Rightarrow> None
      | Some pSub \<Rightarrow>
          (let target = \<lparr>uid = u, key = ts\<rparr> in
           case taosArraySearch (progress pSub) target tscCompareSubscriptionProgress of
             None \<Rightarrow> Some pSub
           | Some i \<Rightarrow>
               Some (pSub\<lparr>progress := (progress pSub)[i := (progress pSub ! i)\<lparr>key := ts\<rparr>]\<rparr>)))"

text \<open>
  The invariant of the spec's ProgressSet (section 3): strictly ascending by uid, read
  as the signed number the comparison function compares.
\<close>

definition progress_sorted :: "SSubscriptionProgress list \<Rightarrow> bool" where
  "progress_sorted ps = sorted_wrt (\<lambda>a b. uid a <s uid b) ps"

subsection \<open>The surroundings\<close>

text \<open>
  The functions read the clock, run statements on the host and use files. The record
  \<open>world\<close> holds what they can observe and change:
  \<^item> \<open>clock w n\<close> is the value of the \<open>n\<close>-th call of \<^verbatim>\<open>taosGetTimestampMs\<close>, and
    \<open>ticks w\<close> counts the calls made so far;
  \<^item> \<open>tbidAnswer w n sql\<close> is the answer of the host to the \<open>n\<close>-th auxiliary statement
    of \<^verbatim>\<open>getTableList\<close> with text \<open>sql\<close>: \<open>None\<close> when \<^verbatim>\<open>taos_query\<close> returns
    \<^verbatim>\<open>NULL\<close> or an error, otherwise the uids of the rows fetched, in order;
  \<^item> \<open>queryCode w n\<close> is the response code of the \<open>n\<close>-th \<^verbatim>\<open>tscDoQuery\<close>
    (\<open>0\<close> is \<^verbatim>\<open>TSDB_CODE_SUCCESS\<close>), \<open>queries w\<close> counts the statements issued;
  \<^item> \<open>files w path\<close> is the content of the file at \<open>path\<close>, \<open>canCreate w path\<close> tells
    whether \<^verbatim>\<open>fopen(path, "w+")\<close> succeeds, \<open>tsDataDir w\<close> is the global of that name;
  \<^item> \<open>maxSqlLen w\<close> is the constant \<^verbatim>\<open>TSDB_MAX_SQL_LEN\<close> of a header outside the file;
  \<^item> \<open>uninitialised w i\<close> is the indeterminate value that the local variable \<^verbatim>\<open>p\<close> of
    \<^verbatim>\<open>tscLoadSubscriptionProgress\<close> holds when the \<open>i\<close>-th iteration of its loop begins.
\<close>

record world =
  clock :: "nat \<Rightarrow> int64"
  ticks :: nat
  tbidAnswer :: "nat \<Rightarrow> string \<Rightarrow> int64 list option"
  tbidQueries :: nat
  queryCode :: "nat \<Rightarrow> int"
  queries :: nat
  files :: "string \<Rightarrow> string option"
  canCreate :: "string \<Rightarrow> bool"
  tsDataDir :: string
  maxSqlLen :: nat
  uninitialised :: "nat \<Rightarrow> SSubscriptionProgress"

definition taosGetTimestampMs :: "world \<Rightarrow> int64 \<times> world" where
  "taosGetTimestampMs w = (clock w (ticks w), w\<lparr>ticks := ticks w + 1\<rparr>)"

definition TSDB_CODE_SUCCESS :: int where
  "TSDB_CODE_SUCCESS = 0"

definition tscDoQuery :: "world \<Rightarrow> int \<times> world" where
  "tscDoQuery w = (queryCode w (queries w), w\<lparr>queries := queries w + 1\<rparr>)"

subsection \<open>The table list\<close>

text \<open>
  \<^verbatim>\<open>strstr\<close>: the suffix of the text that starts at the first occurrence of the
  pattern, \<open>None\<close> for the C function's \<^verbatim>\<open>NULL\<close>.
\<close>

fun strstr :: "string \<Rightarrow> string \<Rightarrow> string option" where
  "strstr [] needle = (if needle = [] then Some [] else None)"
| "strstr (c # cs) needle =
     (if take (length needle) (c # cs) = needle then Some (c # cs) else strstr cs needle)"

text \<open>
  \<^verbatim>\<open>getTableList\<close> passes the result of \<^verbatim>\<open>strstr\<close> to \<^verbatim>\<open>strlen\<close> unchecked:
  on a statement without \<^verbatim>\<open>" from "\<close> the behaviour of the C code is undefined, and the
  model returns the outer \<open>None\<close>. Otherwise the result is the new world and either
  \<open>None\<close> (the function returns \<^verbatim>\<open>NULL\<close>) or the uids of the rows, in order.
\<close>

definition getTableList :: "SSqlObj \<Rightarrow> world \<Rightarrow> (int64 list option \<times> world) option" where
  "getTableList sqlObj w =
     (case strstr (sqlstr sqlObj) '' from '' of
        None \<Rightarrow> None
      | Some p \<Rightarrow>
          (let sql = ''select tbid(tbname)'' @ p;
               w' = w\<lparr>tbidQueries := tbidQueries w + 1\<rparr>
           in Some (tbidAnswer w (tbidQueries w) sql, w')))"

subsection \<open>The topology refresh\<close>

text \<open>
  Modelled from the spec: \<^verbatim>\<open>taosArraySort\<close> lives in the array module, outside the
  file; the spec (4.E) says the new set is sorted by uid. With
  \<^verbatim>\<open>tscCompareSubscriptionProgress\<close> that is ascending by the signed uid. The only sort
  the file reaches is the one of \<^verbatim>\<open>tscUpdateSubscription\<close>, where two entries of
  equal uid are the same entry, so the order a sort leaves among equal elements cannot
  be seen.
\<close>

definition taosArraySort :: "SSubscriptionProgress list \<Rightarrow> SSubscriptionProgress list" where
  "taosArraySort ps = sort_key (\<lambda>p. sint (uid p)) ps"

text \<open>The loop of \<^verbatim>\<open>tscUpdateSubscription\<close> over the table list, pushing to the new array.\<close>

fun collectProgress ::
    "SSub \<Rightarrow> int64 list \<Rightarrow> SSubscriptionProgress list \<Rightarrow> SSubscriptionProgress list" where
  "collectProgress pSub [] acc = acc"
| "collectProgress pSub (tt # tables) acc =
     collectProgress pSub tables
       (taosArrayPush acc
          \<lparr>uid = tt, key = tscGetSubscriptionProgress (Some pSub) tt INT64_MIN\<rparr>)"

text \<open>
  \<^verbatim>\<open>tscUpdateSubscription\<close> returns its \<^verbatim>\<open>int\<close>, the subscription and the world as
  it leaves them; the outer \<open>None\<close> is the undefined behaviour of \<^verbatim>\<open>getTableList\<close>.
\<close>

definition tscUpdateSubscription :: "SSub \<Rightarrow> world \<Rightarrow> (int \<times> SSub \<times> world) option" where
  "tscUpdateSubscription pSub0 w0 =
     (let (now, w1) = taosGetTimestampMs w0;
          pSub = pSub0\<lparr>lastSyncTime := now\<rparr>;
          pTableMetaInfo = tableMetaInfo (pSql pSub)
      in if isNormalTable pTableMetaInfo then
           (let target = \<lparr>uid = tableUid pTableMetaInfo, key = 0\<rparr> in
            case taosArraySearch (progress pSub) target tscCompareSubscriptionProgress of
              None \<Rightarrow>
                Some (1, pSub\<lparr>progress := taosArrayPush (taosArrayClear (progress pSub)) target\<rparr>, w1)
            | Some i \<Rightarrow> Some (1, pSub, w1))
         else
           (case getTableList (pSql pSub) w1 of
              None \<Rightarrow> None
            | Some (None, w2) \<Rightarrow> Some (0, pSub, w2)
            | Some (Some tables, w2) \<Rightarrow>
                (let progress' = taosArraySort (collectProgress pSub tables [])
                 in Some (1,
                      pSub\<lparr>progress := progress',
                           pSql := (pSql pSub)\<lparr>multitableQuery := True\<rparr>\<rparr>,
                      w2))))"

subsection \<open>Text input and output\<close>

text \<open>
  A buffer or a file is the list of its bytes. The C string a buffer holds ends before
  its first NUL byte; \<^verbatim>\<open>strcmp\<close> compares and \<^verbatim>\<open>fputs\<close> writes that string.
\<close>

definition cstr :: "string \<Rightarrow> string" where
  "cstr buf = takeWhile (\<lambda>c. c \<noteq> CHR 0x00) buf"

text \<open>
  \<^verbatim>\<open>fgets(buf, n, fp)\<close> on a stream whose unread bytes are \<open>fp\<close>: \<open>None\<close> is the
  \<^verbatim>\<open>NULL\<close> at end of file, otherwise the bytes stored (at most \<open>n - 1\<close>, up to and
  with the first line feed) and the bytes left unread.
\<close>

definition fgetsBuf :: "nat \<Rightarrow> string \<Rightarrow> string" where
  "fgetsBuf n fp =
     (let line = takeWhile (\<lambda>c. c \<noteq> CHR 0x0A) fp;
          line' = (if length line < length fp then line @ [CHR 0x0A] else line)
      in take (n - 1) line')"

definition fgets :: "nat \<Rightarrow> string \<Rightarrow> (string \<times> string) option" where
  "fgets n fp =
     (if fp = [] then None
      else Some (fgetsBuf n fp, drop (length (fgetsBuf n fp)) fp))"

text \<open>The conversion \<^verbatim>\<open>PRId64\<close> of \<^verbatim>\<open>fprintf\<close>: a signed decimal number.\<close>

definition digitChar :: "nat \<Rightarrow> char" where
  "digitChar d = char_of (48 + d)"

fun decimal :: "nat \<Rightarrow> string" where
  "decimal n = (if n < 10 then [digitChar n] else decimal (n div 10) @ [digitChar (n mod 10)])"

declare decimal.simps [simp del]

definition printInt64 :: "int64 \<Rightarrow> string" where
  "printInt64 x =
     (if sint x < 0 then CHR ''-'' # decimal (nat (- sint x)) else decimal (nat (sint x)))"

text \<open>
  The conversion \<^verbatim>\<open>SCNd64\<close> of \<^verbatim>\<open>sscanf\<close>: white space is skipped, then an optional
  sign and the longest run of decimal digits are read. Without a digit the conversion
  fails (\<open>None\<close>); otherwise the result is the value, which the C library keeps within
  the range of \<^verbatim>\<open>int64_t\<close> as \<^verbatim>\<open>strtol\<close> does, and the rest of the input.
\<close>

definition isspace :: "char \<Rightarrow> bool" where
  "isspace c = (c \<in> set [CHR 0x20, CHR 0x09, CHR 0x0A, CHR 0x0B, CHR 0x0C, CHR 0x0D])"

definition isdigit :: "char \<Rightarrow> bool" where
  "isdigit c = (48 \<le> (of_char c :: nat) \<and> (of_char c :: nat) \<le> 57)"

fun digitsValue :: "nat \<Rightarrow> string \<Rightarrow> nat" where
  "digitsValue acc [] = acc"
| "digitsValue acc (c # cs) = digitsValue (acc * 10 + (of_char c - 48)) cs"

definition clampInt64 :: "int \<Rightarrow> int64" where
  "clampInt64 v =
     (if v < - (2 ^ 63) then INT64_MIN
      else if 2 ^ 63 - 1 < v then 0x7FFFFFFFFFFFFFFF
      else word_of_int v)"

definition scanInt64 :: "string \<Rightarrow> (int64 \<times> string) option" where
  "scanInt64 s =
     (let s1 = dropWhile isspace s;
          (neg, s2) = (case s1 of
              [] \<Rightarrow> (False, [])
            | c # cs \<Rightarrow>
                if c = CHR ''-'' then (True, cs)
                else if c = CHR ''+'' then (False, cs)
                else (False, s1));
          ds = takeWhile isdigit s2
      in if ds = [] then None
         else Some (clampInt64 (if neg then - int (digitsValue 0 ds) else int (digitsValue 0 ds)),
                    dropWhile isdigit s2))"

text \<open>
  \<^verbatim>\<open>sscanf(buf, "%" SCNd64 ":%" SCNd64, &p.uid, &p.key)\<close>: the number of fields
  assigned and \<open>p\<close> with the assigned fields overwritten. A field that is not assigned
  keeps the value it had. The C code does not look at the number.
\<close>

definition sscanfProgress :: "string \<Rightarrow> SSubscriptionProgress \<Rightarrow> int \<times> SSubscriptionProgress" where
  "sscanfProgress buf p =
     (case scanInt64 (cstr buf) of
        None \<Rightarrow> (0, p)
      | Some (u, r1) \<Rightarrow>
          (case r1 of
             [] \<Rightarrow> (1, p\<lparr>uid := u\<rparr>)
           | c # r2 \<Rightarrow>
               if c = CHR '':'' then
                 (case scanInt64 r2 of
                    None \<Rightarrow> (1, p\<lparr>uid := u\<rparr>)
                  | Some (k, r3) \<Rightarrow> (2, p\<lparr>uid := u, key := k\<rparr>))
               else (1, p\<lparr>uid := u\<rparr>)))"

subsection \<open>The progress file\<close>

definition progressPath :: "world \<Rightarrow> SSub \<Rightarrow> string" where
  "progressPath w pSub = tsDataDir w @ ''/subscribe/'' @ cstr (topic pSub)"

definition progressLine :: "SSubscriptionProgress \<Rightarrow> string" where
  "progressLine p = printInt64 (uid p) @ '':'' @ printInt64 (key p) @ [CHR 0x0A]"

text \<open>The loop of \<^verbatim>\<open>tscSaveSubscriptionProgress\<close> over the array.\<close>

fun progressLines :: "SSubscriptionProgress list \<Rightarrow> string" where
  "progressLines [] = []"
| "progressLines (p # ps) = progressLine p @ progressLines ps"

text \<open>
  \<^verbatim>\<open>tscSaveSubscriptionProgress\<close> changes the file only: when it cannot be opened
  the function logs and returns.
\<close>

definition tscSaveSubscriptionProgress :: "SSub \<Rightarrow> world \<Rightarrow> world" where
  "tscSaveSubscriptionProgress pSub w =
     (let path = progressPath w pSub
      in if \<not> canCreate w path then w
         else w\<lparr>files := (files w)
                (path := Some (cstr (sqlstr (pSql pSub)) @ [CHR 0x0A] @
                               progressLines (progress pSub)))\<rparr>)"

text \<open>
  The loop of \<^verbatim>\<open>tscLoadSubscriptionProgress\<close>: it ends only where \<^verbatim>\<open>fgets\<close> returns
  \<^verbatim>\<open>NULL\<close>, and there the function returns 0. The variable \<^verbatim>\<open>p\<close> is declared in
  the loop body without a value: \<open>indet i\<close> is the value it holds when the \<open>i\<close>-th
  iteration begins. The result \<open>None\<close> stands for a loop that never ends, which happens
  only when \<^verbatim>\<open>fgets\<close> can store no byte (a buffer of size below 2).
\<close>

function loadLoop ::
    "nat \<Rightarrow> (nat \<Rightarrow> SSubscriptionProgress) \<Rightarrow> nat \<Rightarrow> string \<Rightarrow>
     SSubscriptionProgress list \<Rightarrow> SSubscriptionProgress list option" where
  "loadLoop n indet i fp acc =
     (case fgets n fp of
        None \<Rightarrow> Some acc
      | Some (buf, fp') \<Rightarrow>
          if buf = [] then None
          else loadLoop n indet (i + 1) fp'
                 (taosArrayPush acc (snd (sscanfProgress buf (indet i)))))"
  by pat_completeness auto
termination
proof (relation "measure (\<lambda>(n, indet, i, fp, acc). length fp)")
  show "wf (measure (\<lambda>(n, indet, i, fp, acc). length fp))" by simp
next
  fix n :: nat and indet :: "nat \<Rightarrow> SSubscriptionProgress" and i :: nat and fp :: string
    and acc :: "SSubscriptionProgress list" and x2 x y
  assume "fgets n fp = Some x2" "(x, y) = x2" "x \<noteq> []"
  then have "fp \<noteq> []" "y = drop (length x) fp"
    by (auto simp: fgets_def split: if_splits)
  with \<open>x \<noteq> []\<close> show "((n, indet, i + 1, y,
        taosArrayPush acc (snd (sscanfProgress x (indet i)))),
      (n, indet, i, fp, acc)) \<in> measure (\<lambda>(n, indet, i, fp, acc). length fp)"
    by simp
qed

declare loadLoop.simps [simp del]

text \<open>
  The first line is cut at its first NUL, carriage return or line feed and compared
  with the statement of the subscription.
\<close>

definition stripLine :: "string \<Rightarrow> string" where
  "stripLine buf = takeWhile (\<lambda>c. c \<noteq> CHR 0x00 \<and> c \<noteq> CHR 0x0D \<and> c \<noteq> CHR 0x0A) buf"

text \<open>
  \<^verbatim>\<open>tscLoadSubscriptionProgress\<close> returns its \<^verbatim>\<open>int\<close> and the subscription as it
  leaves it. The statements after the loop (closing the file, sorting the array,
  \<^verbatim>\<open>return 1\<close>) cannot be reached, since the loop has no exit but the \<^verbatim>\<open>return 0\<close>
  at the end of the file: they have no counterpart here.
\<close>

definition tscLoadSubscriptionProgress :: "SSub \<Rightarrow> world \<Rightarrow> (int \<times> SSub) option" where
  "tscLoadSubscriptionProgress pSub w =
     (case files w (progressPath w pSub) of
        None \<Rightarrow> Some (1, pSub)
      | Some content \<Rightarrow>
          (case fgets (maxSqlLen w) content of
             None \<Rightarrow> Some (0, pSub)
           | Some (buf, fp) \<Rightarrow>
               if stripLine buf \<noteq> cstr (sqlstr (pSql pSub)) then Some (0, pSub)
               else (case loadLoop (maxSqlLen w) (uninitialised w) 0 fp
                            (taosArrayClear (progress pSub)) of
                       None \<Rightarrow> None
                     | Some progress' \<Rightarrow> Some (0, pSub\<lparr>progress := progress'\<rparr>))))"

subsection \<open>Consuming\<close>

text \<open>
  The retry loop of \<^verbatim>\<open>taos_consume\<close>, from the iteration \<open>retry\<close> on. The flag of
  the result tells how the loop was left: \<open>True\<close> when the function returned
  \<^verbatim>\<open>NULL\<close> from inside it because the refresh failed, \<open>False\<close> when the loop ended
  (by \<^verbatim>\<open>break\<close> or after the third iteration). \<^verbatim>\<open>tscDoQuery\<close> and the wait for
  its response leave the response code in the query object; the progress keys are
  advanced elsewhere, while the caller fetches the rows. The outer \<open>None\<close> is the
  undefined behaviour of \<^verbatim>\<open>getTableList\<close>.
\<close>

function consumeRetry :: "nat \<Rightarrow> SSub \<Rightarrow> world \<Rightarrow> (bool \<times> SSub \<times> world) option" where
  "consumeRetry retry pSub w =
     (if retry < 3 then
        (let (now, w1) = taosGetTimestampMs w
         in case (if 10 * 60 * 1000 <s now - lastSyncTime pSub
                  then tscUpdateSubscription pSub w1
                  else Some (1, pSub, w1)) of
              None \<Rightarrow> None
            | Some (updated, pSub2, w2) \<Rightarrow>
                if updated = 0 then Some (True, pSub2, w2)
                else (let (code, w3) = tscDoQuery w2;
                          pSub3 = pSub2\<lparr>pSql := (pSql pSub2)\<lparr>resCode := code\<rparr>\<rparr>
                      in if code \<noteq> TSDB_CODE_SUCCESS then consumeRetry (retry + 1) pSub3 w3
                         else Some (False, pSub3\<lparr>lastSyncTime := 0\<rparr>, w3)))
      else Some (False, pSub, w))"
  by pat_completeness auto
termination
  by (relation "measure (\<lambda>(retry, pSub, w). 3 - retry)") auto

declare consumeRetry.simps [simp del]

text \<open>
  \<^verbatim>\<open>taos_consume\<close>: the first component of the result is \<open>True\<close> when the function
  returns the query object and \<open>False\<close> when it returns \<^verbatim>\<open>NULL\<close>. Pacing reads the
  clock once when no timer drives the subscription; the sleep changes nothing else.
\<close>

definition taos_consume :: "SSub option \<Rightarrow> world \<Rightarrow> (bool \<times> SSub option \<times> world) option" where
  "taos_consume tsub w0 =
     (case tsub of
        None \<Rightarrow> Some (False, None, w0)
      | Some pSub \<Rightarrow>
          (let w1 = tscSaveSubscriptionProgress pSub w0;
               w2 = (if \<not> pTimer pSub then snd (taosGetTimestampMs w1) else w1)
           in case consumeRetry 0 pSub w2 of
                None \<Rightarrow> None
              | Some (returned, pSub', w3) \<Rightarrow>
                  if returned then Some (False, Some pSub', w3)
                  else if resCode (pSql pSub') \<noteq> TSDB_CODE_SUCCESS
                  then Some (False, Some pSub', w3)
                  else (let (now, w4) = taosGetTimestampMs w3
                        in Some (True, Some (pSub'\<lparr>lastConsumeTime := now\<rparr>), w4))))"

subsection \<open>Notions used in the statements\<close>

text \<open>
  The buffers that successive calls of \<^verbatim>\<open>fgets\<close> with a buffer of size \<open>n\<close> return on
  the unread bytes \<open>fp\<close>, up to the end of the file.
\<close>

function fgetsAll :: "nat \<Rightarrow> string \<Rightarrow> string list" where
  "fgetsAll n fp =
     (case fgets n fp of
        None \<Rightarrow> []
      | Some (buf, fp') \<Rightarrow> if buf = [] then [] else buf # fgetsAll n fp')"
  by pat_completeness auto
termination
proof (relation "measure (\<lambda>(n, fp). length fp)")
  show "wf (measure (\<lambda>(n, fp). length fp))" by simp
next
  fix n :: nat and fp :: string and x2 x y
  assume "fgets n fp = Some x2" "(x, y) = x2" "x \<noteq> []"
  then have "fp \<noteq> []" "y = drop (length x) fp"
    by (auto simp: fgets_def split: if_splits)
  with \<open>x \<noteq> []\<close> show "((n, y), (n, fp)) \<in> measure (\<lambda>(n, fp). length fp)"
    by simp
qed

declare fgetsAll.simps [simp del]

text \<open>
  The spec's reading of the first line (4.B): the bytes before the first line feed,
  with the carriage returns and line feeds at its end stripped.
\<close>

definition specFirstLine :: "string \<Rightarrow> string" where
  "specFirstLine content = takeWhile (\<lambda>c. c \<noteq> CHR 0x0A) content"

definition specStripCRLF :: "string \<Rightarrow> string" where
  "specStripCRLF s = rev (dropWhile (\<lambda>c. c = CHR 0x0D \<or> c = CHR 0x0A) (rev s))"

subsection \<open>Example data\<close>

text \<open>
  A subscription on the super table \<open>s\<close> with two tables in its ProgressSet, and a world
  in which every statement fails, the table list is answered with the uids 20 and 30
  and the clock stands at one second. They are the inputs of the worked examples below.
\<close>

definition exampleSql :: SSqlObj where
  "exampleSql =
     \<lparr>sqlstr = ''select * from s'', resCode = 0,
      tableMetaInfo = \<lparr>isNormalTable = False, isSuperTable = True, tableUid = 2\<rparr>,
      multitableQuery = False\<rparr>"

definition exampleSub :: SSub where
  "exampleSub =
     \<lparr>topic = ''t1'', lastSyncTime = 0, lastConsumeTime = 0, pTimer = False,
      pSql = exampleSql, interval = 1000,
      progress = [\<lparr>uid = 10, key = 5\<rparr>, \<lparr>uid = 20, key = 7\<rparr>]\<rparr>"

definition exampleWorld :: world where
  "exampleWorld =
     \<lparr>clock = (\<lambda>n. 1000), ticks = 0,
      tbidAnswer = (\<lambda>n sql. Some [30, 20]), tbidQueries = 0,
      queryCode = (\<lambda>n. - 1), queries = 0,
      files = (\<lambda>path. None), canCreate = (\<lambda>path. True),
      tsDataDir = ''/var/lib/taos'', maxSqlLen = 65480,
      uninitialised = (\<lambda>i. \<lparr>uid = 0, key = 0\<rparr>)\<rparr>"

text \<open>The same subscription on a normal table whose uid is 20.\<close>

definition exampleNormalSub :: SSub where
  "exampleNormalSub =
     exampleSub\<lparr>pSql := exampleSql\<lparr>tableMetaInfo :=
       \<lparr>isNormalTable = True, isSuperTable = False, tableUid = 20\<rparr>\<rparr>\<rparr>"


definition exampleGoodWorld :: world where
  "exampleGoodWorld = exampleWorld\<lparr>queryCode := (\<lambda>n. TSDB_CODE_SUCCESS)\<rparr>"

text \<open>The example world with one file, the progress file of the topic \<open>t1\<close>.\<close>

definition exampleFile :: "string \<Rightarrow> world" where
  "exampleFile content =
     exampleWorld\<lparr>files :=
       (\<lambda>path. if path = ''/var/lib/taos/subscribe/t1'' then Some content else None)\<rparr>"

text \<open>
  The world in which a subscription on \<open>s\<close> is resumed: the progress file of the topic
  holds the entries of uid 20 and uid 10 in this order, and the host answers the table
  list with the uids 10 and 20.
\<close>

definition exampleResumeWorld :: world where
  "exampleResumeWorld =
     (exampleFile (''select * from s'' @ [CHR 0x0A] @ ''20:7'' @ [CHR 0x0A] @
                   ''10:5'' @ [CHR 0x0A]))\<lparr>tbidAnswer := (\<lambda>n sql. Some [10, 20])\<rparr>"

section \<open>Properties\<close>

subsection \<open>Binary search on a sorted progress array\<close>

lemma bsearch_Some:
  "bsearch cmp k xs l u = Some i \<Longrightarrow> l \<le> i \<and> i < u \<and> cmp k (xs ! i) = 0"
proof (induction cmp k xs l u rule: bsearch.induct)
  case (1 cmp k xs l u)
  show ?case
  proof (cases "l < u")
    case False
    with "1.prems" show ?thesis by (simp add: bsearch.simps)
  next
    case True
    let ?idx = "(l + u) div 2"
    let ?c = "cmp k (xs ! ?idx)"
    from True have bounds: "l \<le> ?idx" "?idx < u" by auto
    consider (lt) "?c < 0" | (gt) "\<not> ?c < 0" "0 < ?c" | (eq) "\<not> ?c < 0" "\<not> 0 < ?c"
      by blast
    then show ?thesis
    proof cases
      case lt
      with True "1.prems" have "bsearch cmp k xs l ?idx = Some i"
        by (simp add: bsearch.simps [of cmp k xs l u] Let_def)
      from "1.IH"(1) [OF True refl refl lt this] bounds show ?thesis by auto
    next
      case gt
      with True "1.prems" have "bsearch cmp k xs (?idx + 1) u = Some i"
        by (simp add: bsearch.simps [of cmp k xs l u] Let_def)
      from "1.IH"(2) [OF True refl refl gt this] bounds show ?thesis by auto
    next
      case eq
      with True "1.prems" have "i = ?idx"
        by (simp add: bsearch.simps [of cmp k xs l u] Let_def)
      with eq bounds show ?thesis by auto
    qed
  qed
qed

lemma cmp_zero_iff: "tscCompareSubscriptionProgress x y = 0 \<longleftrightarrow> uid x = uid y"
  by (auto simp: tscCompareSubscriptionProgress_def word_sless_alt
      word_eq_iff_signed [where ?'a = int])

lemma cmp_neg_iff: "tscCompareSubscriptionProgress x y < 0 \<longleftrightarrow> uid x <s uid y"
  by (auto simp: tscCompareSubscriptionProgress_def word_sless_alt)

lemma cmp_pos_iff: "0 < tscCompareSubscriptionProgress x y \<longleftrightarrow> uid y <s uid x"
  by (auto simp: tscCompareSubscriptionProgress_def word_sless_alt)

lemma progress_sorted_nth:
  "progress_sorted ps \<Longrightarrow> i < j \<Longrightarrow> j < length ps \<Longrightarrow> uid (ps ! i) <s uid (ps ! j)"
  unfolding progress_sorted_def by (rule sorted_wrt_nth_less)

lemma progress_sorted_nth_le:
  "progress_sorted ps \<Longrightarrow> i \<le> j \<Longrightarrow> j < length ps \<Longrightarrow> uid (ps ! i) \<le>s uid (ps ! j)"
  using progress_sorted_nth [of ps i j]
  by (cases "i = j") (auto simp: word_sle_eq word_sless_alt)

lemma progress_sorted_index_unique:
  assumes "progress_sorted ps" "i < length ps" "j < length ps" "uid (ps ! i) = uid (ps ! j)"
  shows "i = j"
proof (rule ccontr)
  assume "i \<noteq> j"
  then consider "i < j" | "j < i" by linarith
  then show False
    using progress_sorted_nth [OF assms(1), of i j] progress_sorted_nth [OF assms(1), of j i]
      assms(2-4)
    by cases (auto simp: word_sless_alt)
qed

lemma bsearch_None:
  "bsearch tscCompareSubscriptionProgress t ps l u = None \<Longrightarrow> progress_sorted ps \<Longrightarrow>
   u \<le> length ps \<Longrightarrow> l \<le> i \<Longrightarrow> i < u \<Longrightarrow> uid (ps ! i) \<noteq> uid t"
proof (induction tscCompareSubscriptionProgress t ps l u arbitrary: i rule: bsearch.induct)
  case (1 k xs l u)
  let ?idx = "(l + u) div 2"
  let ?c = "tscCompareSubscriptionProgress k (xs ! ?idx)"
  from "1.prems" have True: "l < u" by simp
  then have bounds: "l \<le> ?idx" "?idx < u" by auto
  consider (lt) "?c < 0" | (gt) "\<not> ?c < 0" "0 < ?c" | (eq) "\<not> ?c < 0" "\<not> 0 < ?c"
    by blast
  then show ?case
  proof cases
    case lt
    with True "1.prems"(1) have n: "bsearch tscCompareSubscriptionProgress k xs l ?idx = None"
      by (simp add: bsearch.simps [of _ k xs l u] Let_def)
    show ?thesis
    proof (cases "i < ?idx")
      case True
      from "1.hyps"(1) [OF \<open>l < u\<close> refl refl lt n "1.prems"(2) _ "1.prems"(4) True]
        bounds "1.prems"(3) show ?thesis by simp
    next
      case False
      then have "uid (xs ! ?idx) \<le>s uid (xs ! i)"
        using progress_sorted_nth_le [OF "1.prems"(2), of ?idx i] "1.prems" by simp
      moreover from lt have "uid k <s uid (xs ! ?idx)" by (simp add: cmp_neg_iff)
      ultimately show ?thesis by (auto simp: word_sle_eq word_sless_alt)
    qed
  next
    case gt
    with True "1.prems"(1)
    have n: "bsearch tscCompareSubscriptionProgress k xs (?idx + 1) u = None"
      by (simp add: bsearch.simps [of _ k xs l u] Let_def)
    show ?thesis
    proof (cases "?idx < i")
      case True
      then have "?idx + 1 \<le> i" by simp
      from "1.hyps"(2) [OF \<open>l < u\<close> refl refl gt n "1.prems"(2,3) this "1.prems"(5)]
      show ?thesis .
    next
      case False
      then have "uid (xs ! i) \<le>s uid (xs ! ?idx)"
        using progress_sorted_nth_le [OF "1.prems"(2), of i ?idx] "1.prems" bounds by simp
      moreover from gt have "uid (xs ! ?idx) <s uid k" by (simp add: cmp_pos_iff)
      ultimately show ?thesis by (auto simp: word_sle_eq word_sless_alt)
    qed
  next
    case eq
    with True "1.prems"(1) show ?thesis
      by (simp add: bsearch.simps [of _ k xs l u] Let_def)
  qed
qed

text \<open>What the search returns: an index whose entry has the uid looked for.\<close>

lemma search_Some:
  "taosArraySearch ps t tscCompareSubscriptionProgress = Some i \<Longrightarrow>
   i < length ps \<and> uid (ps ! i) = uid t"
  unfolding taosArraySearch_def by (drule bsearch_Some) (simp add: cmp_zero_iff)

lemma search_absent:
  "uid t \<notin> uid ` set ps \<Longrightarrow> taosArraySearch ps t tscCompareSubscriptionProgress = None"
proof (rule ccontr)
  assume absent: "uid t \<notin> uid ` set ps"
    and "taosArraySearch ps t tscCompareSubscriptionProgress \<noteq> None"
  then obtain i where "taosArraySearch ps t tscCompareSubscriptionProgress = Some i" by auto
  from search_Some [OF this] have "uid (ps ! i) = uid t" "ps ! i \<in> set ps" by simp_all
  with absent show False by (metis imageI)
qed

text \<open>On a sorted array the search finds every uid that is there, at its only index.\<close>

lemma search_present:
  assumes "progress_sorted ps" "i < length ps" "uid (ps ! i) = uid t"
  shows "taosArraySearch ps t tscCompareSubscriptionProgress = Some i"
proof (cases "taosArraySearch ps t tscCompareSubscriptionProgress")
  case None
  then have "uid (ps ! i) \<noteq> uid t"
    using bsearch_None [of t ps 0 "length ps" i] assms(1,2)
    by (simp add: taosArraySearch_def)
  with assms(3) show ?thesis by simp
next
  case (Some j)
  from search_Some [OF this] have "j < length ps" "uid (ps ! j) = uid t" by simp_all
  with assms have "j = i" by (intro progress_sorted_index_unique [of ps j i]) simp_all
  with Some show ?thesis by simp
qed

lemma get_present:
  assumes "progress_sorted (progress pSub)" "p \<in> set (progress pSub)"
  shows "tscGetSubscriptionProgress (Some pSub) (uid p) dflt = key p"
proof -
  from assms(2) obtain i where i: "i < length (progress pSub)" "progress pSub ! i = p"
    by (auto simp: in_set_conv_nth)
  then have "taosArraySearch (progress pSub) \<lparr>uid = uid p, key = 0\<rparr>
      tscCompareSubscriptionProgress = Some i"
    using assms(1) by (intro search_present) simp_all
  with i show ?thesis by (simp add: tscGetSubscriptionProgress_def)
qed

lemma get_absent:
  "u \<notin> uid ` set (progress pSub) \<Longrightarrow> tscGetSubscriptionProgress (Some pSub) u dflt = dflt"
  using search_absent [of "\<lparr>uid = u, key = 0\<rparr>" "progress pSub"]
  by (simp add: tscGetSubscriptionProgress_def)

subsection \<open>The two functions on a NULL handle\<close>

text \<open>
  C10. With a \<^verbatim>\<open>NULL\<close> handle \<^verbatim>\<open>tscGetSubscriptionProgress\<close> returns the default it
  was given, whatever the uid, and \<^verbatim>\<open>tscUpdateSubscriptionProgress\<close> returns at once:
  there is no subscription behind the handle before or after the call, and nothing of
  one is read.
\<close>

theorem null_handle_is_safe:
  "tscGetSubscriptionProgress None u dflt = dflt \<and>
   tscUpdateSubscriptionProgress None u ts = None"
  by (simp add: tscGetSubscriptionProgress_def tscUpdateSubscriptionProgress_def)

theorem null_handle_is_safe_witness:
  "tscGetSubscriptionProgress None 10 (- 1) = - 1 \<and>
   tscUpdateSubscriptionProgress None 10 7 = None"
  using null_handle_is_safe [of 10 "- 1" 7] by simp

subsection \<open>The progress update\<close>

text \<open>Overwriting the key at the only index of a uid is overwriting it wherever the uid is.\<close>

lemma update_at_unique_index:
  assumes "progress_sorted ps" "i < length ps"
  shows "ps[i := (ps ! i)\<lparr>key := ts\<rparr>] =
         map (\<lambda>p. if uid p = uid (ps ! i) then p\<lparr>key := ts\<rparr> else p) ps"
proof (rule nth_equalityI)
  show "length (ps[i := (ps ! i)\<lparr>key := ts\<rparr>]) =
        length (map (\<lambda>p. if uid p = uid (ps ! i) then p\<lparr>key := ts\<rparr> else p) ps)"
    by simp
next
  fix j
  assume "j < length (ps[i := (ps ! i)\<lparr>key := ts\<rparr>])"
  then have j: "j < length ps" by simp
  show "ps[i := (ps ! i)\<lparr>key := ts\<rparr>] ! j =
        map (\<lambda>p. if uid p = uid (ps ! i) then p\<lparr>key := ts\<rparr> else p) ps ! j"
  proof (cases "j = i")
    case True
    with j show ?thesis by simp
  next
    case False
    with progress_sorted_index_unique [OF assms(1) j assms(2)]
    have "uid (ps ! j) \<noteq> uid (ps ! i)" by auto
    with False j show ?thesis by simp
  qed
qed

lemma progress_sorted_map:
  "(\<And>p. uid (f p) = uid p) \<Longrightarrow> progress_sorted (map f ps) = progress_sorted ps"
  by (simp add: progress_sorted_def sorted_wrt_map)

text \<open>
  C7, as the code has it. On a sorted ProgressSet \<^verbatim>\<open>tscUpdateSubscriptionProgress\<close>
  overwrites the key of the entry with the given uid and changes nothing else; when
  the uid is absent (sorted or not) the subscription is left exactly as it was: the
  function has no insert.
\<close>

theorem update_progress_overwrites_or_ignores:
  assumes "progress_sorted (progress pSub)"
  shows "tscUpdateSubscriptionProgress (Some pSub) u ts =
           Some (pSub\<lparr>progress :=
             map (\<lambda>p. if uid p = u then p\<lparr>key := ts\<rparr> else p) (progress pSub)\<rparr>) \<and>
         (if u \<in> uid ` set (progress pSub)
          then tscGetSubscriptionProgress (tscUpdateSubscriptionProgress (Some pSub) u ts) u dflt = ts
          else tscUpdateSubscriptionProgress (Some pSub) u ts = Some pSub)"
proof -
  let ?ps = "progress pSub"
  let ?f = "\<lambda>p. if uid p = u then p\<lparr>key := ts\<rparr> else p"
  have absent: "tscUpdateSubscriptionProgress (Some pSub) u ts = Some pSub \<and> map ?f ?ps = ?ps"
    if "u \<notin> uid ` set ?ps"
  proof -
    from that have "taosArraySearch ?ps \<lparr>uid = u, key = ts\<rparr> tscCompareSubscriptionProgress = None"
      by (intro search_absent) simp
    moreover from that have "map ?f ?ps = ?ps" by (intro map_idI) auto
    ultimately show ?thesis by (simp add: tscUpdateSubscriptionProgress_def)
  qed
  have present: "tscUpdateSubscriptionProgress (Some pSub) u ts = Some (pSub\<lparr>progress := map ?f ?ps\<rparr>) \<and>
      tscGetSubscriptionProgress (Some (pSub\<lparr>progress := map ?f ?ps\<rparr>)) u dflt = ts"
    if "u \<in> uid ` set ?ps"
  proof -
    from that obtain i where i: "i < length ?ps" "uid (?ps ! i) = u"
      by (auto simp: in_set_conv_nth)
    with assms have found:
      "taosArraySearch ?ps \<lparr>uid = u, key = ts\<rparr> tscCompareSubscriptionProgress = Some i"
      by (intro search_present) simp_all
    have upd: "?ps[i := (?ps ! i)\<lparr>key := ts\<rparr>] = map ?f ?ps"
      using update_at_unique_index [OF assms i(1), of ts] i(2) by simp
    have "progress_sorted (map ?f ?ps)"
      using assms by (subst progress_sorted_map) simp_all
    moreover have "(?ps ! i)\<lparr>key := ts\<rparr> \<in> set (map ?f ?ps)"
      using i by (metis upd set_update_memI)
    ultimately have "tscGetSubscriptionProgress (Some (pSub\<lparr>progress := map ?f ?ps\<rparr>))
        (uid ((?ps ! i)\<lparr>key := ts\<rparr>)) dflt = key ((?ps ! i)\<lparr>key := ts\<rparr>)"
      by (intro get_present) simp_all
    with i(2) found upd show ?thesis by (simp add: tscUpdateSubscriptionProgress_def)
  qed
  show ?thesis
  proof (cases "u \<in> uid ` set ?ps")
    case True
    with present show ?thesis by simp
  next
    case False
    with absent show ?thesis by simp
  qed
qed

theorem update_progress_overwrites_or_ignores_witness:
  "progress_sorted (progress exampleSub) \<and>
   tscUpdateSubscriptionProgress (Some exampleSub) 20 9 =
     Some (exampleSub\<lparr>progress := [\<lparr>uid = 10, key = 5\<rparr>, \<lparr>uid = 20, key = 9\<rparr>]\<rparr>) \<and>
   tscGetSubscriptionProgress (tscUpdateSubscriptionProgress (Some exampleSub) 20 9) 20 0 = 9"
proof -
  have h: "progress_sorted (progress exampleSub)"
    by (simp add: exampleSub_def progress_sorted_def)
  have m: "(20::int64) \<in> uid ` set (progress exampleSub)"
    by (simp add: exampleSub_def)
  have e: "map (\<lambda>p. if uid p = 20 then p\<lparr>key := 9\<rparr> else p) (progress exampleSub) =
      [\<lparr>uid = 10, key = 5\<rparr>, \<lparr>uid = 20, key = 9\<rparr>]"
    by (simp add: exampleSub_def)
  note update_progress_overwrites_or_ignores [OF h, of 20 9 0, unfolded e if_P [OF m]]
  with h show ?thesis by blast
qed

text \<open>
  The claim as the spec words it fails: updating a uid that is not in the ProgressSet
  inserts nothing.
\<close>

theorem update_progress_never_inserts:
  "tscUpdateSubscriptionProgress (Some exampleSub) 30 9 = Some exampleSub \<and>
   \<lparr>uid = 30, key = 9\<rparr> \<notin> set (progress exampleSub)"
  by (simp add: tscUpdateSubscriptionProgress_def taosArraySearch_def bsearch.simps
      tscCompareSubscriptionProgress_def exampleSub_def)

subsection \<open>The topology refresh of a normal table\<close>

lemma search_singleton:
  "taosArraySearch [\<lparr>uid = u, key = k\<rparr>] \<lparr>uid = u, key = k'\<rparr> tscCompareSubscriptionProgress = Some 0"
  by (simp add: taosArraySearch_def bsearch.simps tscCompareSubscriptionProgress_def)

lemma update_progress_keeps_uids:
  "\<exists>pSub'. tscUpdateSubscriptionProgress (Some pSub) u ts = Some pSub' \<and>
     map uid (progress pSub') = map uid (progress pSub)"
proof (cases "taosArraySearch (progress pSub) \<lparr>uid = u, key = ts\<rparr> tscCompareSubscriptionProgress")
  case None
  then show ?thesis by (simp add: tscUpdateSubscriptionProgress_def)
next
  case (Some i)
  from search_Some [OF this] have "i < length (progress pSub)" by simp
  then have "map uid ((progress pSub)[i := (progress pSub ! i)\<lparr>key := ts\<rparr>]) = map uid (progress pSub)"
    by (simp add: map_update list_update_same_conv)
  with Some show ?thesis by (simp add: tscUpdateSubscriptionProgress_def)
qed

text \<open>
  C9, as the code has it. On a normal table \<^verbatim>\<open>tscUpdateSubscription\<close> returns 1 and
  leaves a ProgressSet that holds the uid of the table. It replaces the ProgressSet by
  the single entry (table uid, 0) only when the search does not find the uid, which is
  so whenever the uid is absent; a sorted ProgressSet that holds the uid is kept as it
  is, with all its entries. So the length is 1 afterwards whenever it was at most 1
  before. Calling the refresh again changes nothing more, and
  \<^verbatim>\<open>tscUpdateSubscriptionProgress\<close> keeps the uids of the entries.
\<close>

theorem refresh_normal_table_pins_uid:
  assumes "isNormalTable (tableMetaInfo (pSql pSub))"
  shows "\<exists>pSub'.
      tscUpdateSubscription pSub w = Some (1, pSub', snd (taosGetTimestampMs w)) \<and>
      tableUid (tableMetaInfo (pSql pSub)) \<in> uid ` set (progress pSub') \<and>
      (if tableUid (tableMetaInfo (pSql pSub)) \<in> uid ` set (progress pSub)
       then progress_sorted (progress pSub) \<longrightarrow> progress pSub' = progress pSub
       else progress pSub' = [\<lparr>uid = tableUid (tableMetaInfo (pSql pSub)), key = 0\<rparr>]) \<and>
      (length (progress pSub) \<le> 1 \<longrightarrow> length (progress pSub') = 1) \<and>
      (\<forall>w2. \<exists>pSub2. tscUpdateSubscription pSub' w2 = Some (1, pSub2, snd (taosGetTimestampMs w2)) \<and>
         progress pSub2 = progress pSub') \<and>
      (\<forall>u ts. \<exists>pSub2. tscUpdateSubscriptionProgress (Some pSub') u ts = Some pSub2 \<and>
         map uid (progress pSub2) = map uid (progress pSub'))"
proof -
  let ?t = "tableUid (tableMetaInfo (pSql pSub))"
  let ?target = "\<lparr>uid = ?t, key = 0\<rparr>"
  let ?now = "fst (taosGetTimestampMs w)"
  let ?w1 = "snd (taosGetTimestampMs w)"
  let ?found = "taosArraySearch (progress pSub) ?target tscCompareSubscriptionProgress"
  define pSub' where "pSub' = (case ?found of
      None \<Rightarrow> pSub\<lparr>lastSyncTime := ?now, progress := [?target]\<rparr>
    | Some i \<Rightarrow> pSub\<lparr>lastSyncTime := ?now\<rparr>)"
  have run: "tscUpdateSubscription pSub w = Some (1, pSub', ?w1)"
    using assms
    by (simp add: tscUpdateSubscription_def pSub'_def split_def Let_def taosArrayPush_def
        taosArrayClear_def split: option.splits)
  have sql: "pSql pSub' = pSql pSub"
    by (simp add: pSub'_def split: option.splits)
  have prog: "progress pSub' = (case ?found of None \<Rightarrow> [?target] | Some i \<Rightarrow> progress pSub)"
    by (simp add: pSub'_def split: option.splits)
  have holds: "?t \<in> uid ` set (progress pSub')"
  proof (cases ?found)
    case None
    with prog show ?thesis by simp
  next
    case (Some i)
    from search_Some [OF this] have "i < length (progress pSub)" "uid (progress pSub ! i) = ?t"
      by simp_all
    then have "?t \<in> uid ` set (progress pSub)" by (metis imageI nth_mem)
    with prog Some show ?thesis by simp
  qed
  have kept: "progress pSub' = progress pSub"
    if "?t \<in> uid ` set (progress pSub)" "progress_sorted (progress pSub)"
  proof -
    from that(1) obtain i where "i < length (progress pSub)" "uid (progress pSub ! i) = ?t"
      by (auto simp: in_set_conv_nth)
    with that(2) have "?found = Some i" by (intro search_present) simp_all
    with prog show ?thesis by simp
  qed
  have fresh: "progress pSub' = [?target]" if "?t \<notin> uid ` set (progress pSub)"
  proof -
    from that have "?found = None" by (intro search_absent) simp
    with prog show ?thesis by simp
  qed
  have len: "length (progress pSub') = 1" if "length (progress pSub) \<le> 1"
  proof (cases ?found)
    case None
    with prog show ?thesis by simp
  next
    case (Some i)
    from search_Some [OF this] that have "length (progress pSub) = 1" by simp
    with prog Some show ?thesis by simp
  qed
  have again_found: "taosArraySearch (progress pSub') ?target tscCompareSubscriptionProgress \<noteq> None"
  proof (cases ?found)
    case None
    with prog show ?thesis by (simp add: search_singleton)
  next
    case (Some i)
    with prog show ?thesis by simp
  qed
  have again: "\<exists>pSub2. tscUpdateSubscription pSub' w2 = Some (1, pSub2, snd (taosGetTimestampMs w2)) \<and>
      progress pSub2 = progress pSub'" for w2
    using assms again_found sql
    by (auto simp: tscUpdateSubscription_def split_def Let_def split: option.splits)
  from run holds kept fresh len again update_progress_keeps_uids [of pSub']
  show ?thesis by (intro exI [of _ pSub']) auto
qed

theorem refresh_normal_table_pins_uid_witness:
  "isNormalTable (tableMetaInfo (pSql (exampleNormalSub\<lparr>progress := []\<rparr>))) \<and>
   (\<exists>pSub'. tscUpdateSubscription (exampleNormalSub\<lparr>progress := []\<rparr>) exampleWorld =
        Some (1, pSub', exampleWorld\<lparr>ticks := 1\<rparr>) \<and>
      progress pSub' = [\<lparr>uid = 20, key = 0\<rparr>] \<and> length (progress pSub') = 1)"
proof -
  let ?s = "exampleNormalSub\<lparr>progress := []\<rparr>"
  have h: "isNormalTable (tableMetaInfo (pSql ?s))"
    by (simp add: exampleNormalSub_def)
  have t: "tableUid (tableMetaInfo (pSql ?s)) = 20" "progress ?s = []"
    by (simp_all add: exampleNormalSub_def)
  have w: "snd (taosGetTimestampMs exampleWorld) = exampleWorld\<lparr>ticks := 1\<rparr>"
    by (simp add: taosGetTimestampMs_def exampleWorld_def)
  from refresh_normal_table_pins_uid [OF h, of exampleWorld] h show ?thesis
    unfolding t w by auto
qed

text \<open>
  The claim as the spec words it fails: a normal table whose uid is found among
  several entries keeps them all.
\<close>

theorem refresh_normal_table_keeps_two_entries:
  "isNormalTable (tableMetaInfo (pSql exampleNormalSub)) \<and>
   tscUpdateSubscription exampleNormalSub exampleWorld =
     Some (1, exampleNormalSub\<lparr>lastSyncTime := 1000\<rparr>, exampleWorld\<lparr>ticks := 1\<rparr>) \<and>
   length (progress (exampleNormalSub\<lparr>lastSyncTime := 1000\<rparr>)) = 2"
  by (simp add: tscUpdateSubscription_def taosGetTimestampMs_def taosArraySearch_def
      bsearch.simps tscCompareSubscriptionProgress_def exampleNormalSub_def exampleSub_def
      exampleSql_def exampleWorld_def)

subsection \<open>The topology refresh of a super table\<close>

lemma collectProgress_eq:
  "collectProgress pSub tables acc =
   acc @ map (\<lambda>tt. \<lparr>uid = tt, key = tscGetSubscriptionProgress (Some pSub) tt INT64_MIN\<rparr>) tables"
  by (induction tables arbitrary: acc) (simp_all add: taosArrayPush_def)

lemma get_depends_on_progress:
  "progress pSub = progress pSub' \<Longrightarrow>
   tscGetSubscriptionProgress (Some pSub) u dflt = tscGetSubscriptionProgress (Some pSub') u dflt"
  by (simp add: tscGetSubscriptionProgress_def split: option.splits)

text \<open>
  The refresh on a sorted ProgressSet. Let the table be no normal table, the
  ProgressSet sorted strictly by uid, and the table list be \<open>tables\<close>. Then
  \<^verbatim>\<open>tscUpdateSubscription\<close> returns 1, and the new ProgressSet consists of the old
  entries whose uid is in the list, as they were, and of one entry with key
  \<^verbatim>\<open>INT64_MIN\<close> for each uid of the list that the old ProgressSet did not have; the
  uids of the new ProgressSet are those of the list. The new ProgressSet is ascending
  by uid. The binary search needs the order: what happens without it is shown with
  the loading of the progress file, below.
\<close>

lemma refresh_on_sorted_progress:
  assumes "\<not> isNormalTable (tableMetaInfo (pSql pSub))"
    and "progress_sorted (progress pSub)"
    and "getTableList (pSql pSub) (snd (taosGetTimestampMs w)) = Some (Some tables, w')"
  shows "\<exists>pSub'.
      tscUpdateSubscription pSub w = Some (1, pSub', w') \<and>
      set (progress pSub') =
        {p \<in> set (progress pSub). uid p \<in> set tables} \<union>
        {\<lparr>uid = u, key = INT64_MIN\<rparr> |u. u \<in> set tables \<and> u \<notin> uid ` set (progress pSub)} \<and>
      uid ` set (progress pSub') = set tables \<and>
      sorted (map (\<lambda>p. sint (uid p)) (progress pSub'))"
proof -
  let ?now = "fst (taosGetTimestampMs w)"
  let ?s1 = "pSub\<lparr>lastSyncTime := ?now\<rparr>"
  let ?entry = "\<lambda>tt. \<lparr>uid = tt, key = tscGetSubscriptionProgress (Some pSub) tt INT64_MIN\<rparr>"
  let ?new = "taosArraySort (map ?entry tables)"
  define pSub' where
    "pSub' = ?s1\<lparr>progress := ?new, pSql := (pSql ?s1)\<lparr>multitableQuery := True\<rparr>\<rparr>"
  have same: "(\<lambda>tt. \<lparr>uid = tt, key = tscGetSubscriptionProgress (Some ?s1) tt INT64_MIN\<rparr>) = ?entry"
    by (simp add: get_depends_on_progress [of ?s1 pSub])
  have run: "tscUpdateSubscription pSub w = Some (1, pSub', w')"
    using assms(1,3)
    by (simp add: tscUpdateSubscription_def split_def Let_def collectProgress_eq same pSub'_def)
  have new: "progress pSub' = ?new" by (simp add: pSub'_def)
  have set_new: "set ?new = ?entry ` set tables"
    by (simp add: taosArraySort_def)
  have entry_old: "?entry (uid p) = p" if "p \<in> set (progress pSub)" for p
    using get_present [OF assms(2) that, of INT64_MIN] by simp
  have entry_new: "?entry u = \<lparr>uid = u, key = INT64_MIN\<rparr>" if "u \<notin> uid ` set (progress pSub)" for u
    using get_absent [OF that, of INT64_MIN] by simp
  have "?entry ` set tables =
      {p \<in> set (progress pSub). uid p \<in> set tables} \<union>
      {\<lparr>uid = u, key = INT64_MIN\<rparr> |u. u \<in> set tables \<and> u \<notin> uid ` set (progress pSub)}"
    (is "?L = ?A \<union> ?B")
  proof (intro set_eqI iffI)
    fix q
    assume "q \<in> ?L"
    then obtain u where u: "u \<in> set tables" "q = ?entry u" by auto
    show "q \<in> ?A \<union> ?B"
    proof (cases "u \<in> uid ` set (progress pSub)")
      case True
      then obtain p where p: "p \<in> set (progress pSub)" "uid p = u" by auto
      with entry_old [OF p(1)] u have "q = p" by simp
      with p u show ?thesis by simp
    next
      case False
      with entry_new [OF False] u show ?thesis by auto
    qed
  next
    fix q
    assume "q \<in> ?A \<union> ?B"
    then consider (old) "q \<in> set (progress pSub)" "uid q \<in> set tables"
      | (fresh) u where "q = \<lparr>uid = u, key = INT64_MIN\<rparr>" "u \<in> set tables"
          "u \<notin> uid ` set (progress pSub)"
      by auto
    then show "q \<in> ?L"
    proof cases
      case old
      from entry_old [OF old(1)] have "q = ?entry (uid q)" by simp
      then show ?thesis using old(2) by (rule image_eqI)
    next
      case fresh
      from entry_new [OF fresh(3)] fresh(1) have "q = ?entry u" by simp
      then show ?thesis using fresh(2) by (rule image_eqI)
    qed
  qed
  with new set_new have sets: "set (progress pSub') =
      {p \<in> set (progress pSub). uid p \<in> set tables} \<union>
      {\<lparr>uid = u, key = INT64_MIN\<rparr> |u. u \<in> set tables \<and> u \<notin> uid ` set (progress pSub)}"
    by simp
  have "uid ` (?entry ` set tables) = set tables" by (simp add: image_image)
  with new set_new have uids: "uid ` set (progress pSub') = set tables" by simp
  have asc: "sorted (map (\<lambda>p. sint (uid p)) (progress pSub'))"
    unfolding new taosArraySort_def by (rule sorted_sort_key)
  from run sets uids asc show ?thesis by blast
qed

lemma refresh_on_sorted_progress_example:
  "\<not> isNormalTable (tableMetaInfo (pSql exampleSub)) \<and>
   progress_sorted (progress exampleSub) \<and>
   getTableList (pSql exampleSub) (snd (taosGetTimestampMs exampleWorld)) =
     Some (Some [30, 20], exampleWorld\<lparr>ticks := 1, tbidQueries := 1\<rparr>) \<and>
   (\<exists>pSub'. tscUpdateSubscription exampleSub exampleWorld =
        Some (1, pSub', exampleWorld\<lparr>ticks := 1, tbidQueries := 1\<rparr>) \<and>
      set (progress pSub') = {\<lparr>uid = 20, key = 7\<rparr>, \<lparr>uid = 30, key = INT64_MIN\<rparr>})"
proof -
  have h1: "\<not> isNormalTable (tableMetaInfo (pSql exampleSub))"
    by (simp add: exampleSub_def exampleSql_def)
  have h2: "progress_sorted (progress exampleSub)"
    by (simp add: exampleSub_def progress_sorted_def)
  have h3: "getTableList (pSql exampleSub) (snd (taosGetTimestampMs exampleWorld)) =
      Some (Some [30, 20], exampleWorld\<lparr>ticks := 1, tbidQueries := 1\<rparr>)"
    by (simp add: getTableList_def taosGetTimestampMs_def exampleSub_def exampleSql_def
        exampleWorld_def)
  have e1: "{p \<in> set (progress exampleSub). uid p \<in> set [30, 20]} = {\<lparr>uid = 20, key = 7\<rparr>}"
    by (auto simp: exampleSub_def)
  have e2: "{\<lparr>uid = u, key = INT64_MIN\<rparr> |u.
        u \<in> set [30, 20] \<and> u \<notin> uid ` set (progress exampleSub)} =
      {\<lparr>uid = 30, key = INT64_MIN\<rparr>}"
    by (auto simp: exampleSub_def)
  have e: "{\<lparr>uid = 20, key = 7\<rparr>} \<union> {\<lparr>uid = 30, key = INT64_MIN\<rparr>} =
      {\<lparr>uid = 20, key = 7\<rparr>, \<lparr>uid = 30, key = INT64_MIN\<rparr>}"
    by blast
  from refresh_on_sorted_progress [OF h1 h2 h3, unfolded e1 e2 e]
  obtain pSub' where "tscUpdateSubscription exampleSub exampleWorld =
        Some (1, pSub', exampleWorld\<lparr>ticks := 1, tbidQueries := 1\<rparr>)"
      "set (progress pSub') = {\<lparr>uid = 20, key = 7\<rparr>, \<lparr>uid = 30, key = INT64_MIN\<rparr>}"
    by blast
  with h1 h2 h3 show ?thesis by blast
qed

subsection \<open>The retry loop of taos_consume\<close>







subsection \<open>A successful query\<close>

lemma retry_success_resets:
  "consumeRetry retry pSub w = Some (False, pSub', w') \<Longrightarrow> retry < 3 \<Longrightarrow>
   resCode (pSql pSub') = TSDB_CODE_SUCCESS \<Longrightarrow> lastSyncTime pSub' = 0"
proof (induction "3 - retry" arbitrary: retry pSub w)
  case 0
  then show ?case by simp
next
  case (Suc k)
  note prems = Suc.prems
  let ?now = "clock w (ticks w)"
  let ?w1 = "w\<lparr>ticks := ticks w + 1\<rparr>"
  let ?upd = "if 10 * 60 * 1000 <s ?now - lastSyncTime pSub
              then tscUpdateSubscription pSub ?w1 else Some (1, pSub, ?w1)"
  have step: "consumeRetry retry pSub w =
      (case ?upd of
         None \<Rightarrow> None
       | Some (updated, pSub2, w2) \<Rightarrow>
           if updated = 0 then Some (True, pSub2, w2)
           else (let (code, w3) = tscDoQuery w2;
                     pSub3 = pSub2\<lparr>pSql := (pSql pSub2)\<lparr>resCode := code\<rparr>\<rparr>
                 in if code \<noteq> TSDB_CODE_SUCCESS then consumeRetry (retry + 1) pSub3 w3
                    else Some (False, pSub3\<lparr>lastSyncTime := 0\<rparr>, w3)))"
    using prems(2) by (subst consumeRetry.simps) (simp add: taosGetTimestampMs_def Let_def)
  from prems(1) step obtain updated pSub2 w2 where u: "?upd = Some (updated, pSub2, w2)"
    by (cases ?upd) auto
  from prems(1) step u have nz: "updated \<noteq> 0" by auto
  let ?code = "queryCode w2 (queries w2)"
  let ?w3 = "w2\<lparr>queries := queries w2 + 1\<rparr>"
  let ?pSub3 = "pSub2\<lparr>pSql := (pSql pSub2)\<lparr>resCode := ?code\<rparr>\<rparr>"
  show ?case
  proof (cases "?code = TSDB_CODE_SUCCESS")
    case True
    with prems(1) step u nz have "pSub' = ?pSub3\<lparr>lastSyncTime := 0\<rparr>"
      by (simp add: tscDoQuery_def Let_def)
    then show ?thesis by simp
  next
    case False
    with prems(1) step u nz
    have rest: "consumeRetry (retry + 1) ?pSub3 ?w3 = Some (False, pSub', w')"
      by (simp add: tscDoQuery_def Let_def)
    show ?thesis
    proof (cases "retry + 1 < 3")
      case True
      from Suc.hyps(2) have "k = 3 - (retry + 1)" by simp
      from Suc.hyps(1) [OF this rest True prems(3)] show ?thesis .
    next
      case False
      with rest have "pSub' = ?pSub3" by (simp add: consumeRetry.simps)
      with \<open>?code \<noteq> TSDB_CODE_SUCCESS\<close> prems(3) show ?thesis by simp
    qed
  qed
qed

text \<open>
  C8, what the code does. Whenever \<^verbatim>\<open>taos_consume\<close> returns a result, the response
  code is \<^verbatim>\<open>TSDB_CODE_SUCCESS\<close>, \<open>lastSyncTime\<close> has been set to 0 whatever it was,
  and \<open>lastConsumeTime\<close> is the last reading of the clock.
\<close>

theorem consume_success_always_resets_sync_time:
  assumes "taos_consume (Some pSub) w = Some (True, r, w')"
  shows "\<exists>pSub'. r = Some pSub' \<and>
      resCode (pSql pSub') = TSDB_CODE_SUCCESS \<and>
      lastSyncTime pSub' = 0 \<and>
      0 < ticks w' \<and> lastConsumeTime pSub' = clock w' (ticks w' - 1)"
proof -
  let ?w1 = "tscSaveSubscriptionProgress pSub w"
  let ?w2 = "if \<not> pTimer pSub then snd (taosGetTimestampMs ?w1) else ?w1"
  from assms obtain pSub2 w3 where loop: "consumeRetry 0 pSub ?w2 = Some (False, pSub2, w3)"
    and code: "resCode (pSql pSub2) = TSDB_CODE_SUCCESS"
    and res: "r = Some (pSub2\<lparr>lastConsumeTime := clock w3 (ticks w3)\<rparr>)"
      "w' = w3\<lparr>ticks := ticks w3 + 1\<rparr>"
    by (auto simp: taos_consume_def taosGetTimestampMs_def Let_def
        split: option.splits if_splits prod.splits)
  from retry_success_resets [OF loop _ code] have "lastSyncTime pSub2 = 0" by simp
  with code res show ?thesis by simp
qed

theorem consume_success_always_resets_sync_time_witness:
  "taos_consume (Some (exampleSub\<lparr>lastSyncTime := 900\<rparr>)) exampleGoodWorld =
     Some (True,
       Some (exampleSub\<lparr>lastSyncTime := 0, lastConsumeTime := 1000\<rparr>),
       exampleGoodWorld\<lparr>ticks := 3, queries := 1,
         files := (files exampleGoodWorld)(''/var/lib/taos/subscribe/t1'' :=
           Some (''select * from s'' @ [CHR 0x0A] @ ''10:5'' @ [CHR 0x0A] @ ''20:7'' @ [CHR 0x0A]))\<rparr>) \<and>
   lastSyncTime (exampleSub\<lparr>lastSyncTime := 0, lastConsumeTime := 1000\<rparr>) = 0"
proof -
  have run: "taos_consume (Some (exampleSub\<lparr>lastSyncTime := 900\<rparr>)) exampleGoodWorld =
     Some (True,
       Some (exampleSub\<lparr>lastSyncTime := 0, lastConsumeTime := 1000\<rparr>),
       exampleGoodWorld\<lparr>ticks := 3, queries := 1,
         files := (files exampleGoodWorld)(''/var/lib/taos/subscribe/t1'' :=
           Some (''select * from s'' @ [CHR 0x0A] @ ''10:5'' @ [CHR 0x0A] @ ''20:7'' @ [CHR 0x0A]))\<rparr>)"
    by (simp add: taos_consume_def consumeRetry.simps taosGetTimestampMs_def tscDoQuery_def
        tscSaveSubscriptionProgress_def progressPath_def cstr_def progressLine_def
        printInt64_def decimal.simps digitChar_def char_of_def bit_Suc_0_iff Let_def
        exampleGoodWorld_def exampleWorld_def exampleSub_def exampleSql_def TSDB_CODE_SUCCESS_def)
  from consume_success_always_resets_sync_time [OF run] run show ?thesis by auto
qed

subsection \<open>Loading the progress file\<close>

text \<open>
  C2, at the input where the code departs from it. The progress file of the example
  holds the entries of uid 20 and uid 10 in this order. \<^verbatim>\<open>tscLoadSubscriptionProgress\<close>
  returns at the end of the file, from inside its loop, and never reaches the
  \<^verbatim>\<open>taosArraySort\<close> behind the loop: the ProgressSet is left in the order of the
  file, which is not ascending by uid.
\<close>

theorem load_leaves_file_order:
  "tscLoadSubscriptionProgress (exampleSub\<lparr>progress := []\<rparr>)
     (exampleFile (''select * from s'' @ [CHR 0x0A] @ ''20:7'' @ [CHR 0x0A] @
                   ''10:5'' @ [CHR 0x0A])) =
     Some (0, exampleSub\<lparr>progress := [\<lparr>uid = 20, key = 7\<rparr>, \<lparr>uid = 10, key = 5\<rparr>]\<rparr>) \<and>
   \<not> progress_sorted [\<lparr>uid = 20, key = 7\<rparr>, \<lparr>uid = 10, key = 5\<rparr>]"
  by (simp add: tscLoadSubscriptionProgress_def exampleFile_def exampleSub_def exampleWorld_def
      exampleSql_def progressPath_def cstr_def fgets_def fgetsBuf_def stripLine_def
      loadLoop.simps sscanfProgress_def scanInt64_def isspace_def isdigit_def clampInt64_def
      taosArrayPush_def taosArrayClear_def progress_sorted_def)

text \<open>
  C1, at the input where the code departs from it. \<^verbatim>\<open>taos_subscribe\<close> loads the
  progress file and then refreshes the topology. The file of the example holds the
  entries of uid 20 (key 7) and uid 10 (key 5) in this order, and the load leaves them
  so, since it never reaches its sort. The table list names the uids 10 and 20, so
  both tables survive. The refresh looks each uid up by binary search in the unsorted
  array: for uid 20 it probes the entry of uid 10, goes right and finds nothing. The
  new ProgressSet holds uid 20 with \<^verbatim>\<open>INT64_MIN\<close>, not with its prior key 7.
\<close>

theorem refresh_after_load_loses_key:
  "tscLoadSubscriptionProgress (exampleSub\<lparr>progress := []\<rparr>) exampleResumeWorld =
     Some (0, exampleSub\<lparr>progress := [\<lparr>uid = 20, key = 7\<rparr>, \<lparr>uid = 10, key = 5\<rparr>]\<rparr>) \<and>
   tscUpdateSubscription
     (exampleSub\<lparr>progress := [\<lparr>uid = 20, key = 7\<rparr>, \<lparr>uid = 10, key = 5\<rparr>]\<rparr>)
     exampleResumeWorld =
     Some (1,
       exampleSub\<lparr>lastSyncTime := 1000,
         progress := [\<lparr>uid = 10, key = 5\<rparr>, \<lparr>uid = 20, key = INT64_MIN\<rparr>],
         pSql := exampleSql\<lparr>multitableQuery := True\<rparr>\<rparr>,
       exampleResumeWorld\<lparr>ticks := 1, tbidQueries := 1\<rparr>)"
proof -
  have loaded: "tscLoadSubscriptionProgress (exampleSub\<lparr>progress := []\<rparr>) exampleResumeWorld =
      Some (0, exampleSub\<lparr>progress := [\<lparr>uid = 20, key = 7\<rparr>, \<lparr>uid = 10, key = 5\<rparr>]\<rparr>)"
    by (simp add: tscLoadSubscriptionProgress_def exampleResumeWorld_def exampleFile_def
        exampleSub_def exampleWorld_def exampleSql_def progressPath_def cstr_def fgets_def
        fgetsBuf_def stripLine_def loadLoop.simps sscanfProgress_def scanInt64_def
        isspace_def isdigit_def clampInt64_def taosArrayPush_def taosArrayClear_def)
  have refreshed: "tscUpdateSubscription
      (exampleSub\<lparr>progress := [\<lparr>uid = 20, key = 7\<rparr>, \<lparr>uid = 10, key = 5\<rparr>]\<rparr>)
      exampleResumeWorld =
      Some (1,
        exampleSub\<lparr>lastSyncTime := 1000,
          progress := [\<lparr>uid = 10, key = 5\<rparr>, \<lparr>uid = 20, key = INT64_MIN\<rparr>],
          pSql := exampleSql\<lparr>multitableQuery := True\<rparr>\<rparr>,
        exampleResumeWorld\<lparr>ticks := 1, tbidQueries := 1\<rparr>)"
    by (simp add: tscUpdateSubscription_def taosGetTimestampMs_def getTableList_def
        tscGetSubscriptionProgress_def taosArraySearch_def bsearch.simps
        tscCompareSubscriptionProgress_def taosArraySort_def taosArrayPush_def
        exampleResumeWorld_def exampleFile_def exampleSub_def exampleWorld_def exampleSql_def
        INT64_MIN_def Let_def)
  from loaded refreshed show ?thesis by (rule conjI)
qed

text \<open>
  C5, as the code has it. The first line is what \<^verbatim>\<open>fgets\<close> stores of it, cut at its
  first NUL, carriage return or line feed. When that differs from the statement of the
  subscription (and also when the file is empty), \<^verbatim>\<open>tscLoadSubscriptionProgress\<close>
  returns 0 and the subscription is as it was: nothing of the file is loaded, and
  the ProgressSet is not cleared either.
\<close>

theorem load_mismatch_changes_nothing:
  assumes "files w (progressPath w pSub) = Some content"
    and "stripLine (fgetsBuf (maxSqlLen w) content) \<noteq> cstr (sqlstr (pSql pSub))"
  shows "tscLoadSubscriptionProgress pSub w = Some (0, pSub)"
  using assms by (simp add: tscLoadSubscriptionProgress_def fgets_def)

theorem load_mismatch_changes_nothing_witness:
  "files (exampleFile (''select ts from s'' @ [CHR 0x0A] @ ''10:5'' @ [CHR 0x0A]))
     (progressPath (exampleFile (''select ts from s'' @ [CHR 0x0A] @ ''10:5'' @ [CHR 0x0A]))
        (exampleSub\<lparr>progress := []\<rparr>)) =
     Some (''select ts from s'' @ [CHR 0x0A] @ ''10:5'' @ [CHR 0x0A]) \<and>
   stripLine (fgetsBuf 65480 (''select ts from s'' @ [CHR 0x0A] @ ''10:5'' @ [CHR 0x0A])) =
     ''select ts from s'' \<and>
   tscLoadSubscriptionProgress (exampleSub\<lparr>progress := []\<rparr>)
     (exampleFile (''select ts from s'' @ [CHR 0x0A] @ ''10:5'' @ [CHR 0x0A])) =
     Some (0, exampleSub\<lparr>progress := []\<rparr>)"
proof -
  let ?content = "''select ts from s'' @ [CHR 0x0A] @ ''10:5'' @ [CHR 0x0A]"
  let ?s = "exampleSub\<lparr>progress := []\<rparr>"
  have h1: "files (exampleFile ?content) (progressPath (exampleFile ?content) ?s) = Some ?content"
    by (simp add: exampleFile_def exampleWorld_def progressPath_def exampleSub_def cstr_def)
  have b: "stripLine (fgetsBuf 65480 ?content) = ''select ts from s''"
    by (simp add: stripLine_def fgetsBuf_def)
  have n: "maxSqlLen (exampleFile ?content) = 65480"
    by (simp add: exampleFile_def exampleWorld_def)
  have h2: "stripLine (fgetsBuf (maxSqlLen (exampleFile ?content)) ?content) \<noteq>
      cstr (sqlstr (pSql ?s))"
    unfolding n b by (simp add: exampleSub_def exampleSql_def cstr_def)
  from load_mismatch_changes_nothing [OF h1 h2] h1 b show ?thesis by blast
qed

text \<open>
  The claim as the spec words it fails. The first line of this file is the statement
  followed by a carriage return and an \<open>x\<close>; stripped of trailing carriage returns
  and line feeds it differs from the statement. The code cuts the line at its first
  carriage return, finds the statement, and loads the entry of the file.
\<close>

theorem load_accepts_line_cut_at_carriage_return:
  "specStripCRLF (specFirstLine (''select * from s'' @ [CHR 0x0D] @ ''x'' @ [CHR 0x0A] @
       ''1:2'' @ [CHR 0x0A])) = ''select * from s'' @ [CHR 0x0D] @ ''x'' \<and>
   sqlstr (pSql exampleSub) = ''select * from s'' \<and>
   tscLoadSubscriptionProgress (exampleSub\<lparr>progress := []\<rparr>)
     (exampleFile (''select * from s'' @ [CHR 0x0D] @ ''x'' @ [CHR 0x0A] @
                   ''1:2'' @ [CHR 0x0A])) =
     Some (0, exampleSub\<lparr>progress := [\<lparr>uid = 1, key = 2\<rparr>]\<rparr>)"
  by (simp add: tscLoadSubscriptionProgress_def exampleFile_def exampleSub_def exampleWorld_def
      exampleSql_def progressPath_def cstr_def fgets_def fgetsBuf_def stripLine_def
      loadLoop.simps sscanfProgress_def scanInt64_def isspace_def isdigit_def clampInt64_def
      taosArrayPush_def taosArrayClear_def specStripCRLF_def specFirstLine_def)

text \<open>With a buffer of two bytes or more \<^verbatim>\<open>fgets\<close> stores at least one byte.\<close>

lemma fgetsBuf_nonempty: "2 \<le> n \<Longrightarrow> fp \<noteq> [] \<Longrightarrow> fgetsBuf n fp \<noteq> []"
  by (cases fp) (auto simp: fgetsBuf_def Let_def)

text \<open>
  The loop pushes one entry for each buffer \<^verbatim>\<open>fgets\<close> returns: the result of
  \<^verbatim>\<open>sscanf\<close> on the indeterminate value of that iteration.
\<close>

lemma loadLoop_eq:
  "2 \<le> n \<Longrightarrow>
   loadLoop n indet i fp acc =
     Some (acc @ map (\<lambda>(j, buf). snd (sscanfProgress buf (indet j)))
                  (zip [i ..< i + length (fgetsAll n fp)] (fgetsAll n fp)))"
proof (induction n indet i fp acc rule: loadLoop.induct)
  case (1 n indet i fp acc)
  show ?case
  proof (cases "fp = []")
    case True
    then show ?thesis
      by (simp add: loadLoop.simps [of n indet i "[]"] fgetsAll.simps [of n "[]"] fgets_def)
  next
    case False
    let ?buf = "fgetsBuf n fp"
    let ?fp' = "drop (length ?buf) fp"
    from False have g: "fgets n fp = Some (?buf, ?fp')" by (simp add: fgets_def)
    from "1.prems" False have ne: "?buf \<noteq> []" by (rule fgetsBuf_nonempty)
    from g ne have all: "fgetsAll n fp = ?buf # fgetsAll n ?fp'"
      by (simp add: fgetsAll.simps [of n fp])
    have "loadLoop n indet i fp acc =
        loadLoop n indet (i + 1) ?fp' (taosArrayPush acc (snd (sscanfProgress ?buf (indet i))))"
      using g ne by (simp add: loadLoop.simps [of n indet i fp])
    also have "\<dots> = Some (taosArrayPush acc (snd (sscanfProgress ?buf (indet i))) @
        map (\<lambda>(j, buf). snd (sscanfProgress buf (indet j)))
          (zip [i + 1 ..< i + 1 + length (fgetsAll n ?fp')] (fgetsAll n ?fp')))"
      by (rule "1.IH" [OF g refl ne "1.prems"])
    also have "\<dots> = Some (acc @ map (\<lambda>(j, buf). snd (sscanfProgress buf (indet j)))
        (zip [i ..< i + length (fgetsAll n fp)] (fgetsAll n fp)))"
    proof -
      have "[i ..< i + Suc k] = i # [i + 1 ..< i + 1 + k]" for k
        by (subst upt_rec) simp
      then show ?thesis unfolding all by (simp add: taosArrayPush_def del: upt_Suc)
    qed
    finally show ?thesis .
  qed
qed

text \<open>When both fields are assigned, the entry does not depend on what \<open>p\<close> held.\<close>

lemma sscanf_two_fields:
  "sscanfProgress buf q = (2, e) \<Longrightarrow> sscanfProgress buf q' = (2, e)"
  by (auto simp: sscanfProgress_def split: option.splits list.splits if_splits)

text \<open>
  What the loop loads. Let the first line match the statement and the buffer have
  room for a byte. Then \<^verbatim>\<open>tscLoadSubscriptionProgress\<close> returns 0 with one entry for
  each line that \<^verbatim>\<open>fgets\<close> reads after the first, in the order of the file, up to the
  end of the file. The entry of a line from which \<^verbatim>\<open>sscanf\<close> assigns both fields is
  the pair it read.
\<close>

lemma load_reads_every_line:
  assumes "2 \<le> maxSqlLen w"
    and "files w (progressPath w pSub) = Some content"
    and "fgets (maxSqlLen w) content = Some (buf, fp)"
    and "stripLine buf = cstr (sqlstr (pSql pSub))"
  shows "\<exists>pSub'. tscLoadSubscriptionProgress pSub w = Some (0, pSub') \<and>
      length (progress pSub') = length (fgetsAll (maxSqlLen w) fp) \<and>
      (\<forall>j < length (fgetsAll (maxSqlLen w) fp). \<forall>q e.
         sscanfProgress (fgetsAll (maxSqlLen w) fp ! j) q = (2, e) \<longrightarrow> progress pSub' ! j = e)"
proof -
  let ?ls = "fgetsAll (maxSqlLen w) fp"
  let ?new = "map (\<lambda>(j, buf). snd (sscanfProgress buf (uninitialised w j)))
      (zip [0 ..< 0 + length ?ls] ?ls)"
  have run: "tscLoadSubscriptionProgress pSub w = Some (0, pSub\<lparr>progress := ?new\<rparr>)"
    using assms(2-4) loadLoop_eq [OF assms(1), of "uninitialised w" 0 fp "[]"]
    by (simp add: tscLoadSubscriptionProgress_def taosArrayClear_def)
  have len: "length ?new = length ?ls" by simp
  have nth: "?new ! j = e" if "j < length ?ls" "sscanfProgress (?ls ! j) q = (2, e)" for j q e
  proof -
    from that(1) have "?new ! j = snd (sscanfProgress (?ls ! j) (uninitialised w j))" by simp
    also from sscanf_two_fields [OF that(2)] have "\<dots> = e" by simp
    finally show ?thesis .
  qed
  from run len nth show ?thesis by (intro exI [of _ "pSub\<lparr>progress := ?new\<rparr>"]) auto
qed


lemma load_reads_every_line_example:
  "2 \<le> maxSqlLen (exampleFile (''select * from s'' @ [CHR 0x0A] @ ''10:5'' @ [CHR 0x0A] @
       ''bad'' @ [CHR 0x0A])) \<and>
   fgets 65480 (''select * from s'' @ [CHR 0x0A] @ ''10:5'' @ [CHR 0x0A] @ ''bad'' @ [CHR 0x0A]) =
     Some (''select * from s'' @ [CHR 0x0A], ''10:5'' @ [CHR 0x0A] @ ''bad'' @ [CHR 0x0A]) \<and>
   stripLine (''select * from s'' @ [CHR 0x0A]) = cstr (sqlstr (pSql exampleSub)) \<and>
   sscanfProgress (''10:5'' @ [CHR 0x0A]) \<lparr>uid = 0, key = 0\<rparr> = (2, \<lparr>uid = 10, key = 5\<rparr>) \<and>
   (\<exists>pSub'. tscLoadSubscriptionProgress (exampleSub\<lparr>progress := []\<rparr>)
        (exampleFile (''select * from s'' @ [CHR 0x0A] @ ''10:5'' @ [CHR 0x0A] @
           ''bad'' @ [CHR 0x0A])) = Some (0, pSub') \<and>
      length (progress pSub') = 2 \<and> progress pSub' ! 0 = \<lparr>uid = 10, key = 5\<rparr>)"
proof -
  let ?content = "''select * from s'' @ [CHR 0x0A] @ ''10:5'' @ [CHR 0x0A] @ ''bad'' @ [CHR 0x0A]"
  let ?fp = "''10:5'' @ [CHR 0x0A] @ ''bad'' @ [CHR 0x0A]"
  let ?w = "exampleFile ?content"
  let ?s = "exampleSub\<lparr>progress := []\<rparr>"
  have n: "maxSqlLen ?w = 65480" by (simp add: exampleFile_def exampleWorld_def)
  have h1: "2 \<le> maxSqlLen ?w" unfolding n by simp
  have h2: "files ?w (progressPath ?w ?s) = Some ?content"
    by (simp add: exampleFile_def exampleWorld_def progressPath_def exampleSub_def cstr_def)
  have g: "fgets 65480 ?content = Some (''select * from s'' @ [CHR 0x0A], ?fp)"
    by (simp add: fgets_def fgetsBuf_def)
  have h3: "fgets (maxSqlLen ?w) ?content = Some (''select * from s'' @ [CHR 0x0A], ?fp)"
    unfolding n by (rule g)
  have s: "stripLine (''select * from s'' @ [CHR 0x0A]) = cstr (sqlstr (pSql exampleSub))"
    by (simp add: stripLine_def cstr_def exampleSub_def exampleSql_def)
  have h4: "stripLine (''select * from s'' @ [CHR 0x0A]) = cstr (sqlstr (pSql ?s))"
    using s by simp
  have ls: "fgetsAll 65480 ?fp = [''10:5'' @ [CHR 0x0A], ''bad'' @ [CHR 0x0A]]"
    by (simp add: fgetsAll.simps fgets_def fgetsBuf_def)
  have p: "sscanfProgress (''10:5'' @ [CHR 0x0A]) \<lparr>uid = 0, key = 0\<rparr> = (2, \<lparr>uid = 10, key = 5\<rparr>)"
    by (simp add: sscanfProgress_def scanInt64_def cstr_def isspace_def isdigit_def
        clampInt64_def)
  from load_reads_every_line [OF h1 h2 h3 h4, unfolded n ls]
  obtain pSub' where r: "tscLoadSubscriptionProgress ?s ?w = Some (0, pSub')"
      "length (progress pSub') = 2"
      "\<forall>j<2. \<forall>q e. sscanfProgress ([''10:5'' @ [CHR 0x0A], ''bad'' @ [CHR 0x0A]] ! j) q = (2, e) \<longrightarrow>
         progress pSub' ! j = e"
    by auto
  from r(3) p have "progress pSub' ! 0 = \<lparr>uid = 10, key = 5\<rparr>"
    by (metis nth_Cons_0 zero_less_numeral)
  with r(1,2) have "\<exists>pSub'. tscLoadSubscriptionProgress ?s ?w = Some (0, pSub') \<and>
      length (progress pSub') = 2 \<and> progress pSub' ! 0 = \<lparr>uid = 10, key = 5\<rparr>"
    by blast
  with h1 g s p show ?thesis by blast
qed

text \<open>
  C6, at the input where the code departs from it. The progress file holds, after the
  statement, the lines \<open>1:2\<close>, \<open>bad\<close> and \<open>3:4\<close>. On the line \<open>bad\<close>
  \<^verbatim>\<open>sscanf\<close> assigns no field, but its return value is not looked at: the loop
  pushes the variable \<^verbatim>\<open>p\<close> all the same and reads on. So the loading does not stop
  at the malformed line. The ProgressSet gets a second entry with whatever \<^verbatim>\<open>p\<close>
  held when the iteration began (\<open>indet 1\<close>), and the entry of the line after it as
  the third. Where the variable keeps its place on the stack from one iteration to
  the next, it still holds the pair of the line before, and the entry of uid 1 is
  there twice.
\<close>

theorem load_goes_on_after_malformed_line:
  "fst (sscanfProgress (''bad'' @ [CHR 0x0A]) q) = 0 \<and>
   tscLoadSubscriptionProgress (exampleSub\<lparr>progress := []\<rparr>)
     ((exampleFile (''select * from s'' @ [CHR 0x0A] @ ''1:2'' @ [CHR 0x0A] @
                    ''bad'' @ [CHR 0x0A] @ ''3:4'' @ [CHR 0x0A]))\<lparr>uninitialised := indet\<rparr>) =
     Some (0, exampleSub\<lparr>progress :=
       [\<lparr>uid = 1, key = 2\<rparr>, indet 1, \<lparr>uid = 3, key = 4\<rparr>]\<rparr>) \<and>
   tscLoadSubscriptionProgress (exampleSub\<lparr>progress := []\<rparr>)
     ((exampleFile (''select * from s'' @ [CHR 0x0A] @ ''1:2'' @ [CHR 0x0A] @
                    ''bad'' @ [CHR 0x0A] @ ''3:4'' @ [CHR 0x0A]))
        \<lparr>uninitialised := (\<lambda>i. \<lparr>uid = 1, key = 2\<rparr>)\<rparr>) =
     Some (0, exampleSub\<lparr>progress :=
       [\<lparr>uid = 1, key = 2\<rparr>, \<lparr>uid = 1, key = 2\<rparr>, \<lparr>uid = 3, key = 4\<rparr>]\<rparr>)"
  by (simp add: tscLoadSubscriptionProgress_def exampleFile_def exampleSub_def exampleWorld_def
      exampleSql_def progressPath_def cstr_def fgets_def fgetsBuf_def stripLine_def
      loadLoop.simps sscanfProgress_def scanInt64_def isspace_def isdigit_def clampInt64_def
      taosArrayPush_def taosArrayClear_def)

subsection \<open>Writing a number and reading it back\<close>

lemma isdigit_digitChar: "d < 10 \<Longrightarrow> isdigit (digitChar d)"
  by (simp add: digitChar_def isdigit_def)

lemma of_char_digitChar: "d < 10 \<Longrightarrow> of_char (digitChar d) = 48 + d"
  by (simp add: digitChar_def)

lemma decimal_nonempty: "decimal n \<noteq> []"
  by (subst decimal.simps) simp

lemma decimal_digits: "c \<in> set (decimal n) \<Longrightarrow> isdigit c"
proof (induction n arbitrary: c rule: decimal.induct)
  case (1 n)
  show ?case
  proof (cases "n < 10")
    case True
    with "1.prems" show ?thesis by (simp add: decimal.simps [of n] isdigit_digitChar)
  next
    case False
    with "1.prems" have "c \<in> set (decimal (n div 10)) \<or> c = digitChar (n mod 10)"
      by (auto simp: decimal.simps [of n])
    with "1.IH" [OF False] show ?thesis by (auto simp: isdigit_digitChar)
  qed
qed

lemma digitsValue_append:
  "digitsValue acc (xs @ ys) = digitsValue (digitsValue acc xs) ys"
  by (induction xs arbitrary: acc) simp_all

lemma digitsValue_decimal: "digitsValue 0 (decimal n) = n"
proof (induction n rule: decimal.induct)
  case (1 n)
  show ?case
  proof (cases "n < 10")
    case True
    then show ?thesis by (simp add: decimal.simps [of n] of_char_digitChar)
  next
    case False
    have "digitsValue 0 (decimal n) =
        digitsValue (digitsValue 0 (decimal (n div 10))) [digitChar (n mod 10)]"
      using False by (simp add: decimal.simps [of n] digitsValue_append)
    also have "\<dots> = n div 10 * 10 + n mod 10"
      using "1.IH" [OF False] by (simp add: of_char_digitChar)
    finally show ?thesis by simp
  qed
qed

lemma length_decimal: "n < 10 ^ k \<Longrightarrow> 0 < k \<Longrightarrow> length (decimal n) \<le> k"
proof (induction k arbitrary: n)
  case 0
  then show ?case by simp
next
  case (Suc k)
  show ?case
  proof (cases "n < 10")
    case True
    then show ?thesis by (simp add: decimal.simps [of n])
  next
    case False
    with Suc.prems have k: "0 < k" by (cases k) simp_all
    from Suc.prems have "n div 10 < 10 ^ k" by (simp add: less_mult_imp_div_less mult.commute)
    from Suc.IH [OF this k] False show ?thesis by (simp add: decimal.simps [of n])
  qed
qed

lemma isdigit_not_special:
  "isdigit c \<Longrightarrow> \<not> isspace c \<and> c \<noteq> CHR ''-'' \<and> c \<noteq> CHR ''+'' \<and> c \<noteq> CHR '':'' \<and>
     c \<noteq> CHR 0x0A \<and> c \<noteq> CHR 0x00"
  by (auto simp: isdigit_def isspace_def)

text \<open>Reading digits that are followed by something else than a digit.\<close>

lemma takeWhile_digits:
  "\<not> isdigit c \<Longrightarrow> takeWhile isdigit (decimal n @ c # r) = decimal n"
  by (simp add: takeWhile_append2 decimal_digits)

lemma dropWhile_digits:
  "\<not> isdigit c \<Longrightarrow> dropWhile isdigit (decimal n @ c # r) = c # r"
  by (simp add: dropWhile_append2 decimal_digits)

lemma clampInt64_sint: "clampInt64 (sint (x :: int64)) = x"
proof -
  have "- (2 ^ 63) \<le> sint x" "sint x < 2 ^ 63"
    using sint_ge [of x] sint_lt [of x] by simp_all
  then show ?thesis by (simp add: clampInt64_def)
qed

lemma scanInt64_printInt64:
  assumes "\<not> isdigit c"
  shows "scanInt64 (printInt64 x @ c # r) = Some (x, c # r)"
proof (cases "sint x < 0")
  case True
  let ?m = "nat (- sint x)"
  have v: "- int (digitsValue 0 (decimal ?m)) = sint x"
    using True by (simp add: digitsValue_decimal)
  have "\<not> isspace CHR ''-''" by (simp add: isspace_def)
  then have "dropWhile isspace (printInt64 x @ c # r) = CHR ''-'' # decimal ?m @ c # r"
    using True by (simp add: printInt64_def)
  then show ?thesis
    using assms v
    by (simp add: scanInt64_def Let_def takeWhile_digits dropWhile_digits decimal_nonempty
        clampInt64_sint)
next
  case False
  let ?m = "nat (sint x)"
  obtain d ds where dec: "decimal ?m = d # ds"
    using decimal_nonempty [of ?m] by (cases "decimal ?m") auto
  then have "isdigit d" using decimal_digits [of d ?m] by simp
  from isdigit_not_special [OF this]
  have d: "\<not> isspace d" "d \<noteq> CHR ''-''" "d \<noteq> CHR ''+''" by simp_all
  have v: "int (digitsValue 0 (decimal ?m)) = sint x"
    using False by (simp add: digitsValue_decimal)
  have p: "printInt64 x @ c # r = d # ds @ c # r"
    using False dec by (simp add: printInt64_def)
  have t: "takeWhile isdigit (d # ds @ c # r) = decimal ?m"
    "dropWhile isdigit (d # ds @ c # r) = c # r"
    using takeWhile_digits [OF assms, of ?m r] dropWhile_digits [OF assms, of ?m r] dec
    by simp_all
  have sp: "dropWhile isspace (d # ds @ c # r) = d # ds @ c # r"
    using d(1) by simp
  have sign: "(case d # ds @ c # r of
        [] \<Rightarrow> (False, [])
      | ca # cs \<Rightarrow>
          if ca = CHR ''-'' then (True, cs)
          else if ca = CHR ''+'' then (False, cs)
          else (False, d # ds @ c # r)) = (False, d # ds @ c # r)"
    using d(2,3) by simp
  have "scanInt64 (d # ds @ c # r) =
      Some (clampInt64 (int (digitsValue 0 (decimal ?m))), c # r)"
    unfolding scanInt64_def sp sign Let_def prod.case t
    using decimal_nonempty [of ?m] by simp
  with v p show ?thesis by (simp add: clampInt64_sint)
qed

lemma printInt64_chars: "c \<in> set (printInt64 x) \<Longrightarrow> isdigit c \<or> c = CHR ''-''"
  by (auto simp: printInt64_def dest: decimal_digits split: if_splits)

lemma length_printInt64: "length (printInt64 (x :: int64)) \<le> 20"
proof -
  have r: "- (2 ^ 63) \<le> sint x" "sint x < 2 ^ 63"
    using sint_ge [of x] sint_lt [of x] by simp_all
  have "nat (- sint x) < 10 ^ 19" "nat (sint x) < 10 ^ 19" using r by simp_all
  then have "length (decimal (nat (- sint x))) \<le> 19" "length (decimal (nat (sint x))) \<le> 19"
    by (simp_all add: length_decimal)
  then show ?thesis by (simp add: printInt64_def)
qed

text \<open>A line that the save wrote is read back as the entry it was written from.\<close>

lemma sscanf_progressLine: "sscanfProgress (progressLine p) q = (2, p)"
proof -
  have colon: "\<not> isdigit CHR '':''" and lf: "\<not> isdigit CHR 0x0A"
    by (simp_all add: isdigit_def)
  have "CHR 0x00 \<notin> set (progressLine p)"
    using printInt64_chars [of "CHR 0x00" "uid p"] printInt64_chars [of "CHR 0x00" "key p"]
    by (auto simp: progressLine_def isdigit_def)
  then have c: "cstr (progressLine p) = progressLine p"
    by (auto simp: cstr_def takeWhile_eq_all_conv)
  have one: "scanInt64 (progressLine p) =
      Some (uid p, CHR '':'' # printInt64 (key p) @ [CHR 0x0A])"
    using scanInt64_printInt64 [OF colon, of "uid p" "printInt64 (key p) @ [CHR 0x0A]"]
    by (simp add: progressLine_def)
  have two: "scanInt64 (printInt64 (key p) @ [CHR 0x0A]) = Some (key p, [CHR 0x0A])"
    using scanInt64_printInt64 [OF lf, of "key p" "[]"] by simp
  show ?thesis unfolding sscanfProgress_def c one by (simp add: two)
qed

lemma progressLine_shape:
  "\<exists>body. progressLine p = body @ [CHR 0x0A] \<and> CHR 0x0A \<notin> set body \<and> length body \<le> 41"
proof -
  let ?body = "printInt64 (uid p) @ '':'' @ printInt64 (key p)"
  have "CHR 0x0A \<notin> set ?body"
    using printInt64_chars [of "CHR 0x0A" "uid p"] printInt64_chars [of "CHR 0x0A" "key p"]
    by (auto simp: isdigit_def)
  moreover have "length ?body \<le> 41"
    using length_printInt64 [of "uid p"] length_printInt64 [of "key p"] by simp
  moreover have "progressLine p = ?body @ [CHR 0x0A]" by (simp add: progressLine_def)
  ultimately show ?thesis by blast
qed

text \<open>\<^verbatim>\<open>fgets\<close> returns a whole line when the buffer has room for it.\<close>

lemma fgets_line:
  assumes "CHR 0x0A \<notin> set body" "length body + 2 \<le> n"
  shows "fgets n (body @ CHR 0x0A # rest) = Some (body @ [CHR 0x0A], rest)"
proof -
  have "takeWhile (\<lambda>c. c \<noteq> CHR 0x0A) (body @ CHR 0x0A # rest) = body"
    using assms(1) by (subst takeWhile_append2) auto
  then have "fgetsBuf n (body @ CHR 0x0A # rest) = body @ [CHR 0x0A]"
    using assms(2) by (simp add: fgetsBuf_def Let_def)
  then show ?thesis by (simp add: fgets_def)
qed

lemma loadLoop_progressLines:
  "43 \<le> n \<Longrightarrow> loadLoop n indet i (progressLines ps) acc = Some (acc @ ps)"
proof (induction ps arbitrary: i acc)
  case Nil
  then show ?case by (simp add: loadLoop.simps [of n indet i "[]"] fgets_def)
next
  case (Cons p ps)
  from progressLine_shape [of p] obtain body where
    b: "progressLine p = body @ [CHR 0x0A]" "CHR 0x0A \<notin> set body" "length body \<le> 41"
    by blast
  with Cons.prems have
    "fgets n (body @ CHR 0x0A # progressLines ps) = Some (body @ [CHR 0x0A], progressLines ps)"
    by (intro fgets_line) simp_all
  with b(1) have g: "fgets n (progressLines (p # ps)) = Some (progressLine p, progressLines ps)"
    by simp
  have "loadLoop n indet i (progressLines (p # ps)) acc =
      loadLoop n indet (i + 1) (progressLines ps)
        (taosArrayPush acc (snd (sscanfProgress (progressLine p) (indet i))))"
    using g b(1) by (subst loadLoop.simps) simp
  also have "\<dots> = Some (taosArrayPush acc p @ ps)"
    using Cons.IH [OF Cons.prems] by (simp add: sscanf_progressLine)
  finally show ?case by (simp add: taosArrayPush_def)
qed

subsection \<open>Saving and loading again\<close>

lemma stripLine_statement:
  assumes "CHR 0x0D \<notin> set (cstr s)" "CHR 0x0A \<notin> set (cstr s)"
  shows "stripLine (cstr s @ [CHR 0x0A]) = cstr s"
proof -
  have "CHR 0x00 \<notin> set (cstr s)"
    unfolding cstr_def by (metis (mono_tags, lifting) set_takeWhileD)
  with assms have "\<forall>c \<in> set (cstr s). c \<noteq> CHR 0x00 \<and> c \<noteq> CHR 0x0D \<and> c \<noteq> CHR 0x0A"
    by auto
  then show ?thesis by (simp add: stripLine_def takeWhile_append2)
qed

text \<open>
  C3, what the code does. Let the file be writable, the statement be free of carriage
  returns and line feeds, and the buffer of \<^verbatim>\<open>TSDB_MAX_SQL_LEN\<close> bytes have room for
  the statement and for a line of two numbers. After
  \<^verbatim>\<open>tscSaveSubscriptionProgress\<close>, \<^verbatim>\<open>tscLoadSubscriptionProgress\<close> on the same
  subscription, whatever its ProgressSet has become meanwhile, restores the saved
  ProgressSet; but it returns 0, the value of its failures, and not the 1 of the
  \<^verbatim>\<open>return\<close> at its end, which cannot be reached.
\<close>

theorem save_then_load_restores_but_returns_0:
  assumes "canCreate w (progressPath w pSub)"
    and "length (cstr (sqlstr (pSql pSub))) + 2 \<le> maxSqlLen w"
    and "43 \<le> maxSqlLen w"
    and "CHR 0x0D \<notin> set (cstr (sqlstr (pSql pSub)))"
    and "CHR 0x0A \<notin> set (cstr (sqlstr (pSql pSub)))"
  shows "tscLoadSubscriptionProgress (pSub\<lparr>progress := other\<rparr>)
           (tscSaveSubscriptionProgress pSub w) = Some (0, pSub)"
proof -
  let ?sql = "cstr (sqlstr (pSql pSub))"
  let ?w' = "tscSaveSubscriptionProgress pSub w"
  let ?s = "pSub\<lparr>progress := other\<rparr>"
  have path: "progressPath ?w' ?s = progressPath w pSub"
    by (simp add: progressPath_def tscSaveSubscriptionProgress_def Let_def)
  have saved: "files ?w' (progressPath w pSub) =
      Some (?sql @ CHR 0x0A # progressLines (progress pSub))"
    using assms(1) by (simp add: tscSaveSubscriptionProgress_def Let_def)
  have n: "maxSqlLen ?w' = maxSqlLen w"
    by (simp add: tscSaveSubscriptionProgress_def Let_def)
  have first: "fgets (maxSqlLen w) (?sql @ CHR 0x0A # progressLines (progress pSub)) =
      Some (?sql @ [CHR 0x0A], progressLines (progress pSub))"
    using assms(5,2) by (rule fgets_line)
  have match: "stripLine (?sql @ [CHR 0x0A]) = cstr (sqlstr (pSql ?s))"
    using stripLine_statement [OF assms(4,5)] by simp
  have loop: "loadLoop (maxSqlLen w) (uninitialised ?w') 0 (progressLines (progress pSub))
      (taosArrayClear (progress ?s)) = Some (progress pSub)"
    using loadLoop_progressLines [OF assms(3), of "uninitialised ?w'" 0 "progress pSub" "[]"]
    by (simp add: taosArrayClear_def)
  show ?thesis
    unfolding tscLoadSubscriptionProgress_def path saved n option.case first prod.case
    using match loop by simp
qed

theorem save_then_load_restores_but_returns_0_witness:
  "canCreate exampleWorld (progressPath exampleWorld exampleSub) \<and>
   length (cstr (sqlstr (pSql exampleSub))) + 2 \<le> maxSqlLen exampleWorld \<and>
   43 \<le> maxSqlLen exampleWorld \<and>
   CHR 0x0D \<notin> set (cstr (sqlstr (pSql exampleSub))) \<and>
   CHR 0x0A \<notin> set (cstr (sqlstr (pSql exampleSub))) \<and>
   files (tscSaveSubscriptionProgress exampleSub exampleWorld) ''/var/lib/taos/subscribe/t1'' =
     Some (''select * from s'' @ [CHR 0x0A] @ ''10:5'' @ [CHR 0x0A] @ ''20:7'' @ [CHR 0x0A]) \<and>
   tscLoadSubscriptionProgress (exampleSub\<lparr>progress := []\<rparr>)
     (tscSaveSubscriptionProgress exampleSub exampleWorld) = Some (0, exampleSub)"
proof -
  have h1: "canCreate exampleWorld (progressPath exampleWorld exampleSub)"
    by (simp add: exampleWorld_def)
  have h2: "length (cstr (sqlstr (pSql exampleSub))) + 2 \<le> maxSqlLen exampleWorld"
    by (simp add: exampleWorld_def exampleSub_def exampleSql_def cstr_def)
  have h3: "43 \<le> maxSqlLen exampleWorld" by (simp add: exampleWorld_def)
  have h4: "CHR 0x0D \<notin> set (cstr (sqlstr (pSql exampleSub)))"
    by (simp add: exampleSub_def exampleSql_def cstr_def)
  have h5: "CHR 0x0A \<notin> set (cstr (sqlstr (pSql exampleSub)))"
    by (simp add: exampleSub_def exampleSql_def cstr_def)
  have f: "files (tscSaveSubscriptionProgress exampleSub exampleWorld)
      ''/var/lib/taos/subscribe/t1'' =
      Some (''select * from s'' @ [CHR 0x0A] @ ''10:5'' @ [CHR 0x0A] @ ''20:7'' @ [CHR 0x0A])"
    by (simp add: tscSaveSubscriptionProgress_def progressPath_def cstr_def progressLine_def
        printInt64_def decimal.simps digitChar_def char_of_def bit_Suc_0_iff Let_def
        exampleWorld_def exampleSub_def exampleSql_def)
  from save_then_load_restores_but_returns_0 [OF h1 h2 h3 h4 h5, of "[]"] h1 h2 h3 h4 h5 f
  show ?thesis by blast
qed

subsection \<open>The order of the ProgressSet under the other operations\<close>

text \<open>
  The load apart, the operations keep a sorted ProgressSet sorted: the progress update
  changes no uid, the refresh of a normal table keeps the array or replaces it by one
  entry, and the refresh of any other table sorts the new array, strictly when the
  table list names no uid twice. \<^verbatim>\<open>taos_consume\<close> changes the ProgressSet through
  the refresh only.
\<close>

lemma progress_sorted_uids: "progress_sorted ps \<longleftrightarrow> sorted_wrt (<s) (map uid ps)"
  by (simp add: progress_sorted_def sorted_wrt_map)

lemma update_progress_keeps_sorted:
  assumes "progress_sorted (progress pSub)"
    and "tscUpdateSubscriptionProgress (Some pSub) u ts = Some pSub'"
  shows "progress_sorted (progress pSub')"
  using update_progress_keeps_uids [of pSub u ts] assms by (auto simp: progress_sorted_uids)

lemma refresh_normal_keeps_sorted:
  assumes "isNormalTable (tableMetaInfo (pSql pSub))"
    and "progress_sorted (progress pSub)"
    and "tscUpdateSubscription pSub w = Some (r, pSub', w')"
  shows "progress_sorted (progress pSub')"
  using assms
  by (auto simp: tscUpdateSubscription_def taosGetTimestampMs_def Let_def taosArrayPush_def
      taosArrayClear_def progress_sorted_def split: option.splits)

lemma refresh_other_sorts:
  assumes "\<not> isNormalTable (tableMetaInfo (pSql pSub))"
    and "getTableList (pSql pSub) (snd (taosGetTimestampMs w)) = Some (Some tables, w')"
    and "distinct tables"
    and "tscUpdateSubscription pSub w = Some (r, pSub', w'')"
  shows "progress_sorted (progress pSub')"
proof -
  let ?s1 = "pSub\<lparr>lastSyncTime := fst (taosGetTimestampMs w)\<rparr>"
  let ?entry = "\<lambda>tt. \<lparr>uid = tt, key = tscGetSubscriptionProgress (Some ?s1) tt INT64_MIN\<rparr>"
  let ?new = "taosArraySort (map ?entry tables)"
  let ?g = "\<lambda>p. sint (uid p)"
  from assms(1,2,4) have new: "progress pSub' = ?new"
    by (auto simp: tscUpdateSubscription_def split_def Let_def collectProgress_eq)
  have "inj_on ?entry (set tables)" by (rule inj_onI) simp
  with assms(3) have d: "distinct ?new" by (simp add: taosArraySort_def distinct_map)
  have "inj_on ?g (set ?new)"
  proof (rule inj_onI)
    fix a b
    assume "a \<in> set ?new" "b \<in> set ?new" "?g a = ?g b"
    then obtain u v where "a = ?entry u" "b = ?entry v" "sint u = sint v"
      by (auto simp: taosArraySort_def)
    moreover from this(3) have "u = v" by (rule signed_word_eqI)
    ultimately show "a = b" by simp
  qed
  with d have "distinct (map ?g ?new)" by (simp add: distinct_map)
  moreover have "sorted (map ?g ?new)" unfolding taosArraySort_def by (rule sorted_sort_key)
  ultimately have "sorted_wrt (<) (map ?g ?new)" by (simp add: strict_sorted_iff)
  then show ?thesis
    unfolding new progress_sorted_def by (simp add: sorted_wrt_map word_sless_alt)
qed

end
